theory Spec2Isabelle
  imports Complex_Main "HOL-Library.Product_Lexorder"
begin

section \<open>Conventions of the embedding\<close>

text \<open>
  The development embeds the orchestration code of the wildlife classification
  pipeline under \<^verbatim>\<open>ml-pipeline/src\<close>: \<^verbatim>\<open>monitoring/monitor.py\<close>,
  \<^verbatim>\<open>inference/predictor.py\<close> and \<^verbatim>\<open>training/trainer.py\<close>.

  \<^item> Python floats are idealised as \<^typ>\<open>real\<close>: rounding, infinities and NaN are
    outside the model.
  \<^item> A Python dictionary with a fixed set of possible keys is a record whose
    fields are \<^typ>\<open>'a option\<close> (\<open>None\<close>: the key is absent); an open dictionary
    is a map.
  \<^item> An exception is a value of \<open>py_error\<close>; a method that can raise returns
    \<open>py_error + 'a\<close>, with \<open>Inl\<close> for the exception.
  \<^item> A method of a class takes the object (\<open>self\<close>) as an argument, and returns
    it again when it assigns one of its attributes.
  \<^item> What a method obtains from outside the repository (the clock, the file
    system, the image library, the deep-learning framework) is an argument of
    its model.
\<close>

datatype py_error =
    RuntimeError string
  | KeyError string
  | IndexError string
  | TypeError string
  | ExternalError string

text \<open>\<^verbatim>\<open>str(e)\<close>: the message of an exception. A \<^verbatim>\<open>KeyError\<close> carries the printed
  key; \<open>ExternalError\<close> stands for any exception the image library or the
  framework raises.\<close>

fun str_of_error :: "py_error \<Rightarrow> string" where
  "str_of_error (RuntimeError m) = m"
| "str_of_error (KeyError m) = m"
| "str_of_error (IndexError m) = m"
| "str_of_error (TypeError m) = m"
| "str_of_error (ExternalError m) = m"

text \<open>\<^verbatim>\<open>str(n)\<close> for a non-negative integer.\<close>

fun str_of_nat :: "nat \<Rightarrow> string" where
  "str_of_nat n =
     (if n < 10 then [char_of (48 + n)]
      else str_of_nat (n div 10) @ [char_of (48 + n mod 10)])"

subsection \<open>numpy reductions\<close>

text \<open>\<^verbatim>\<open>np.mean\<close>, \<^verbatim>\<open>np.min\<close>, \<^verbatim>\<open>np.max\<close> and \<^verbatim>\<open>np.std\<close> (population standard
  deviation) of a non-empty list. Every call in the sources is guarded by a
  non-emptiness test, so the value at \<open>[]\<close> is never read.\<close>

definition np_mean :: "real list \<Rightarrow> real" where
  "np_mean xs = sum_list xs / real (length xs)"

definition np_min :: "real list \<Rightarrow> real" where
  "np_min xs = fold min (tl xs) (hd xs)"

definition np_max :: "real list \<Rightarrow> real" where
  "np_max xs = fold max (tl xs) (hd xs)"

definition np_std :: "real list \<Rightarrow> real" where
  "np_std xs = sqrt (np_mean (map (\<lambda>x. (x - np_mean xs)\<^sup>2) xs))"

text \<open>The slice \<^verbatim>\<open>xs[-n:]\<close> for a positive \<open>n\<close>: the last \<open>n\<close> elements, or all of
  \<open>xs\<close> when it is shorter.\<close>

definition py_last_n :: "nat \<Rightarrow> 'a list \<Rightarrow> 'a list" where
  "py_last_n n xs = drop (length xs - n) xs"

section \<open>ModelMonitor\<close>

text \<open>A metric entry is the dictionary \<^verbatim>\<open>{'timestamp': ..., 'model_version': ...,
  **metrics}\<close>; \<open>metrics\<close> holds the named numeric metrics, among them
  \<open>accuracy\<close> and \<open>loss\<close> when they were recorded.\<close>

record metric_entry =
  timestamp :: string
  model_version :: "string option"
  metrics :: "string \<rightharpoonup> real"

text \<open>\<^verbatim>\<open>m.get(key, default)\<close> on the numeric metrics.\<close>

definition metric_get :: "metric_entry \<Rightarrow> string \<Rightarrow> real \<Rightarrow> real" where
  "metric_get m k d = (case metrics m k of None \<Rightarrow> d | Some v \<Rightarrow> v)"

record model_monitor =
  metrics_history :: "metric_entry list"
  metrics_file :: "metric_entry list"

text \<open>\<^verbatim>\<open>record_metrics\<close>: the entry is appended to the history in memory and to
  the metrics log; \<open>now\<close> is the reading of the clock.\<close>

definition record_metrics ::
  "string \<Rightarrow> model_monitor \<Rightarrow> (string \<rightharpoonup> real) \<Rightarrow> string option \<Rightarrow> model_monitor" where
  "record_metrics now self ms version =
     (let metric_entry = \<lparr>timestamp = now, model_version = version, metrics = ms\<rparr>
      in self\<lparr>metrics_history := metrics_history self @ [metric_entry],
              metrics_file := metrics_file self @ [metric_entry]\<rparr>)"

text \<open>The two shapes of the dictionary \<^verbatim>\<open>detect_performance_drift\<close> returns.\<close>

datatype drift_report =
    InsufficientData (drift_detected: bool) (reason: string)
  | DriftReport (drift_detected: bool) (accuracy_drop: real) (threshold: real)
      (oldest_accuracy: real) (recent_accuracy: real) (recommendation: string)

definition detect_performance_drift :: "model_monitor \<Rightarrow> real \<Rightarrow> drift_report" where
  "detect_performance_drift self thr =
     (if length (metrics_history self) < 2 then InsufficientData False ''Insufficient data''
      else
        let recent = py_last_n 10 (metrics_history self);
            oldest = metrics_history self ! 0;
            recent_acc = np_mean (map (\<lambda>m. metric_get m ''accuracy'' 0) recent);
            oldest_acc = metric_get oldest ''accuracy'' 0;
            accuracy_drop = oldest_acc - recent_acc
        in DriftReport (accuracy_drop > thr) accuracy_drop thr oldest_acc recent_acc
             (if accuracy_drop > thr then ''Retrain model'' else ''Model performing well''))"

text \<open>A monitor whose history holds the given accuracies, one entry each.\<close>

definition acc_entry :: "real \<Rightarrow> metric_entry" where
  "acc_entry a = \<lparr>timestamp = ''t'', model_version = None, metrics = [''accuracy'' \<mapsto> a]\<rparr>"

definition monitor_of :: "real list \<Rightarrow> model_monitor" where
  "monitor_of accs = \<lparr>metrics_history = map acc_entry accs, metrics_file = map acc_entry accs\<rparr>"

section \<open>Trainer\<close>

text \<open>
  The optimisation itself (forward and backward passes, the optimiser, the
  learning-rate scheduler, the experiment tracker) belongs to the external
  framework. The model keeps what \<^verbatim>\<open>Trainer.fit\<close> itself decides: which parameters
  are trainable, the history of metrics, the early-stopping counters and the
  checkpoints written.
\<close>

text \<open>\<^verbatim>\<open>WildlifeModel.freeze_backbone\<close> and \<^verbatim>\<open>unfreeze_backbone\<close> on the list of the
  \<^verbatim>\<open>requires_grad\<close> flags of \<^verbatim>\<open>self.backbone.parameters()\<close>, in the order of that
  list: freezing clears the flag of every element of the slice \<^verbatim>\<open>[:-1]\<close> and
  leaves the last flag as it is, unfreezing sets every flag. (The classification
  head is \<^verbatim>\<open>self.backbone.fc\<close>, so its parameters are at the end of this list.)\<close>

definition freeze_backbone :: "bool list \<Rightarrow> bool list" where
  "freeze_backbone ps = map (\<lambda>_. False) (butlast ps) @ drop (length ps - 1) ps"

definition unfreeze_backbone :: "bool list \<Rightarrow> bool list" where
  "unfreeze_backbone ps = map (\<lambda>_. True) ps"

record training_history =
  train_loss :: "real list"
  train_acc :: "real list"
  val_loss :: "real list"
  val_acc :: "real list"

text \<open>A checkpoint file: its name carries the epoch and the validation accuracy,
  its content the epoch and the history (the weights and the optimiser state are
  the framework's).\<close>

record checkpoint =
  ckpt_epoch :: nat
  ckpt_val_acc :: real
  ckpt_history :: training_history

record trainer =
  requires_grad :: "bool list"
  history :: training_history
  checkpoints :: "checkpoint list"

text \<open>What the framework returns in an epoch: \<^verbatim>\<open>train_epoch\<close> sees the trainable
  flags in force, \<^verbatim>\<open>validate\<close> runs with gradients disabled. Both return
  (average loss, accuracy).\<close>

record framework =
  train_epoch :: "nat \<Rightarrow> bool list \<Rightarrow> real \<times> real"
  validate :: "nat \<Rightarrow> real \<times> real"

definition save_checkpoint :: "trainer \<Rightarrow> nat \<Rightarrow> real \<Rightarrow> trainer" where
  "save_checkpoint self epoch acc =
     self\<lparr>checkpoints := checkpoints self @
       [\<lparr>ckpt_epoch = epoch, ckpt_val_acc = acc, ckpt_history = history self\<rparr>]\<rparr>"

text \<open>The local variables of \<^verbatim>\<open>fit\<close> together with the trainer object.
  \<^verbatim>\<open>float('inf')\<close>, the initial best validation loss, is \<open>None\<close>.\<close>

record fit_locals =
  the_trainer :: trainer
  best_val_loss :: "real option"
  patience_counter :: nat

definition max_patience :: nat where
  "max_patience = 5"

text \<open>\<^verbatim>\<open>val_loss < best_val_loss\<close>.\<close>

fun below_best :: "real \<Rightarrow> real option \<Rightarrow> bool" where
  "below_best v None = True"
| "below_best v (Some b) = (v < b)"

text \<open>The body of the epoch loop; the second component says whether the body
  ended in \<^verbatim>\<open>break\<close>.\<close>

definition fit_epoch ::
  "framework \<Rightarrow> bool \<Rightarrow> int \<Rightarrow> nat \<Rightarrow> fit_locals \<Rightarrow> fit_locals \<times> bool" where
  "fit_epoch fw freeze unfreeze_at_epoch epoch st =
     (let t0 = the_trainer st;
          t1 = (if int epoch = unfreeze_at_epoch \<and> freeze
                then t0\<lparr>requires_grad := unfreeze_backbone (requires_grad t0)\<rparr> else t0);
          (trl, tra) = train_epoch fw epoch (requires_grad t1);
          (vl, va) = validate fw epoch;
          h = history t1;
          t2 = t1\<lparr>history := \<lparr>train_loss = train_loss h @ [trl], train_acc = train_acc h @ [tra],
                               val_loss = val_loss h @ [vl], val_acc = val_acc h @ [va]\<rparr>\<rparr>
      in if below_best vl (best_val_loss st)
         then (\<lparr>the_trainer = save_checkpoint t2 epoch va, best_val_loss = Some vl,
                patience_counter = 0\<rparr>, False)
         else (\<lparr>the_trainer = t2, best_val_loss = best_val_loss st,
                patience_counter = patience_counter st + 1\<rparr>,
               patience_counter st + 1 \<ge> max_patience))"

text \<open>\<^verbatim>\<open>for epoch in range(1, epochs + 1)\<close>: the first numeric argument counts the
  epochs still to run, the second is the current epoch.\<close>

primrec fit_loop ::
  "framework \<Rightarrow> bool \<Rightarrow> int \<Rightarrow> nat \<Rightarrow> nat \<Rightarrow> fit_locals \<Rightarrow> fit_locals" where
  "fit_loop fw freeze u 0 epoch st = st"
| "fit_loop fw freeze u (Suc n) epoch st =
     (case fit_epoch fw freeze u epoch st of
        (st', stop) \<Rightarrow> if stop then st' else fit_loop fw freeze u n (Suc epoch) st')"

definition fit_start :: "trainer \<Rightarrow> bool \<Rightarrow> fit_locals" where
  "fit_start self freeze =
     \<lparr>the_trainer = (if freeze
        then self\<lparr>requires_grad := freeze_backbone (requires_grad self)\<rparr> else self),
      best_val_loss = None, patience_counter = 0\<rparr>"

definition fit_run :: "framework \<Rightarrow> trainer \<Rightarrow> int \<Rightarrow> bool \<Rightarrow> int \<Rightarrow> fit_locals" where
  "fit_run fw self epochs freeze u = fit_loop fw freeze u (nat epochs) 1 (fit_start self freeze)"

text \<open>\<^verbatim>\<open>Trainer.fit\<close>: the trainer object it leaves behind (its \<^const>\<open>history\<close> is
  the value returned).\<close>

definition fit :: "framework \<Rightarrow> trainer \<Rightarrow> int \<Rightarrow> bool \<Rightarrow> int \<Rightarrow> trainer" where
  "fit fw self epochs freeze u = the_trainer (fit_run fw self epochs freeze u)"

text \<open>For stating what the loop does: the state after \<open>k\<close> passes through the loop
  body, epochs \<open>1, ..., k\<close>, with no regard to \<^verbatim>\<open>break\<close>.\<close>

primrec after_epochs ::
  "framework \<Rightarrow> bool \<Rightarrow> int \<Rightarrow> fit_locals \<Rightarrow> nat \<Rightarrow> fit_locals" where
  "after_epochs fw freeze u st 0 = st"
| "after_epochs fw freeze u st (Suc k) =
     fst (fit_epoch fw freeze u (Suc k) (after_epochs fw freeze u st k))"

definition fit_after :: "framework \<Rightarrow> trainer \<Rightarrow> bool \<Rightarrow> int \<Rightarrow> nat \<Rightarrow> fit_locals" where
  "fit_after fw self freeze u k = after_epochs fw freeze u (fit_start self freeze) k"

text \<open>The number of epochs a call of \<^verbatim>\<open>fit\<close> ran: the entries it appended to the
  history.\<close>

definition epochs_run :: "framework \<Rightarrow> trainer \<Rightarrow> int \<Rightarrow> bool \<Rightarrow> int \<Rightarrow> nat" where
  "epochs_run fw self epochs freeze u =
     length (val_loss (history (fit fw self epochs freeze u))) - length (val_loss (history self))"

text \<open>A framework that reports the same losses in every epoch, one whose losses
  fall in every epoch, and a fresh trainer over three parameters.\<close>

definition flat_framework :: framework where
  "flat_framework = \<lparr>train_epoch = (\<lambda>e ps. (1, 50)), validate = (\<lambda>e. (1, 50))\<rparr>"

definition improving_framework :: framework where
  "improving_framework =
     \<lparr>train_epoch = (\<lambda>e ps. (1 / real e, 50)), validate = (\<lambda>e. (1 / real e, 50))\<rparr>"

definition fresh_trainer :: trainer where
  "fresh_trainer = \<lparr>requires_grad = [True, True, True],
     history = \<lparr>train_loss = [], train_acc = [], val_loss = [], val_acc = []\<rparr>,
     checkpoints = []\<rparr>"

section \<open>Predictor\<close>

subsection \<open>The tensor operations of the framework\<close>

text \<open>Modelled from the spec: \<^verbatim>\<open>F.softmax\<close>, which is code of the framework and not
  of the repository. The spec describes it as a softmax that subtracts the largest
  score before exponentiating.\<close>

definition softmax :: "real list \<Rightarrow> real list" where
  "softmax xs =
     (let m = np_max xs;
          es = map (\<lambda>x. exp (x - m)) xs;
          z = sum_list es
      in map (\<lambda>e. e / z) es)"

text \<open>Modelled from the spec: \<^verbatim>\<open>torch.max(probabilities, 1)\<close> on the single row,
  code of the framework. It returns the largest value with the arg-max, which is
  the first index that holds the largest value; an empty row is an error.\<close>

definition torch_max :: "real list \<Rightarrow> py_error + real \<times> nat" where
  "torch_max ps =
     (if ps = [] then Inl (IndexError ''max(): Expected reduction dim to have non-zero size'')
      else Inr (np_max ps, length (takeWhile (\<lambda>p. p \<noteq> np_max ps) ps)))"

text \<open>Modelled from the spec: \<^verbatim>\<open>torch.topk(row, k)\<close>, code of the framework. It
  returns the \<open>k\<close> largest values with their indices, in descending order of the
  value, ties broken by the lower index first (the spec's words); a \<open>k\<close> above the
  length of the row is an error. The key \<open>(- p, i)\<close> is compared
  lexicographically.\<close>

definition torch_topk :: "real list \<Rightarrow> nat \<Rightarrow> py_error + (real \<times> nat) list" where
  "torch_topk ps k =
     (if length ps < k then Inl (RuntimeError ''selected index k out of range'')
      else Inr (take k (sort_key (\<lambda>(p, i). (- p, i)) (zip ps [0..<length ps]))))"

text \<open>The order of a ranking of the classes \<open>i\<close> and \<open>j\<close> by the probabilities
  \<open>ps\<close>: the higher probability first, and among equal probabilities the lower
  index first.\<close>

definition ranks_before :: "real list \<Rightarrow> nat \<Rightarrow> nat \<Rightarrow> bool" where
  "ranks_before ps i j = (ps ! j < ps ! i \<or> (ps ! i = ps ! j \<and> i < j))"

subsection \<open>Prediction results\<close>

text \<open>The dictionaries the predictor returns and the logger stores. A successful
  prediction holds every key but \<open>error\<close>; the error record of \<^verbatim>\<open>predict_batch\<close>
  holds \<open>image_path\<close> and \<open>error\<close> only. An item of \<open>top_predictions\<close> is the
  pair of its \<^verbatim>\<open>species\<close> and its \<^verbatim>\<open>confidence\<close>.\<close>

record prediction =
  image_path :: "string option"
  predicted_species :: "string option"
  confidence :: "real option"
  is_confident :: "bool option"
  top_predictions :: "(string \<times> real) list option"
  pred_timestamp :: "string option"
  error :: "string option"

definition error_record :: "string \<Rightarrow> string \<Rightarrow> prediction" where
  "error_record path msg =
     \<lparr>image_path = Some path, predicted_species = None, confidence = None,
      is_confident = None, top_predictions = None, pred_timestamp = None,
      error = Some msg\<rparr>"

subsection \<open>The predictor object\<close>

text \<open>\<open>'m\<close> is the type of the network object. \<^verbatim>\<open>len(self.species_mapping)\<close> is
  the number of keys of the mapping.\<close>

record 'm predictor =
  device :: string
  species_mapping :: "nat \<rightharpoonup> string"
  confidence_threshold :: real
  model :: "'m option"
  model_path :: string
  is_loaded :: bool

text \<open>What the predictor calls outside the repository: opening an image and
  running the transform chain on it (\<^verbatim>\<open>Image.open(...).convert('RGB')\<close>,
  \<^verbatim>\<open>self.transforms\<close>); constructing the network for a number of classes;
  reading the weights file into it for a device and switching it to evaluation
  mode; the forward pass, which returns the row of class scores. Each can raise.\<close>

record ('m, 'img) externals =
  open_image :: "string \<Rightarrow> py_error + 'img"
  model_class :: "nat \<Rightarrow> py_error + 'm"
  load_weights :: "'m \<Rightarrow> string \<Rightarrow> string \<Rightarrow> py_error + 'm"
  forward :: "'m \<Rightarrow> 'img \<Rightarrow> py_error + real list"

text \<open>\<^verbatim>\<open>Predictor.__init__\<close>: the model is loaded lazily.\<close>

definition new_predictor :: "string \<Rightarrow> (nat \<rightharpoonup> string) \<Rightarrow> string \<Rightarrow> real \<Rightarrow> 'm predictor" where
  "new_predictor path mapping dev thr =
     \<lparr>device = dev, species_mapping = mapping, confidence_threshold = thr,
      model = None, model_path = path, is_loaded = False\<rparr>"

text \<open>\<^verbatim>\<open>Predictor.load_model\<close>: the outcome and the object after the call. The
  attribute \<open>model\<close> is assigned before the weights are read, so a failure of the
  read leaves it set and \<open>is_loaded\<close> false.\<close>

definition load_model ::
  "('m, 'img) externals \<Rightarrow> 'm predictor \<Rightarrow> (py_error + unit) \<times> 'm predictor" where
  "load_model ext self =
     (if is_loaded self then (Inr (), self)
      else
        let num_classes = card (dom (species_mapping self)) in
        case model_class ext num_classes of
          Inl e \<Rightarrow> (Inl e, self)
        | Inr m \<Rightarrow>
            (case load_weights ext m (model_path self) (device self) of
               Inl e \<Rightarrow> (Inl e, self\<lparr>model := Some m\<rparr>)
             | Inr m' \<Rightarrow> (Inr (), self\<lparr>model := Some m', is_loaded := True\<rparr>)))"

text \<open>The list comprehension that builds \<open>top_predictions\<close>: a missing key of the
  mapping raises at the first index that misses.\<close>

fun label_top :: "(nat \<rightharpoonup> string) \<Rightarrow> (real \<times> nat) list \<Rightarrow> py_error + (string \<times> real) list" where
  "label_top sm [] = Inr []"
| "label_top sm ((prob, idx) # rest) =
     (case sm idx of
        None \<Rightarrow> Inl (KeyError (str_of_nat idx))
      | Some species \<Rightarrow>
          (case label_top sm rest of
             Inl e \<Rightarrow> Inl e
           | Inr items \<Rightarrow> Inr ((species, prob) # items)))"

text \<open>\<^verbatim>\<open>Predictor.predict_single\<close>. \<open>now\<close> is the reading of the clock for the
  timestamp. The method assigns no attribute of the object. With \<open>is_loaded\<close> set
  and no model object, calling the model raises a \<^verbatim>\<open>TypeError\<close>.\<close>

definition predict_single ::
  "('m, 'img) externals \<Rightarrow> string \<Rightarrow> 'm predictor \<Rightarrow> string \<Rightarrow> py_error + prediction" where
  "predict_single ext now self path =
     (if \<not> is_loaded self then Inl (RuntimeError ''Model not loaded. Call load_model() first.'')
      else
        case open_image ext path of
          Inl e \<Rightarrow> Inl e
        | Inr image_tensor \<Rightarrow>
        (case model self of
          None \<Rightarrow> Inl (TypeError ''NoneType object is not callable'')
        | Some m \<Rightarrow>
        (case forward ext m image_tensor of
          Inl e \<Rightarrow> Inl e
        | Inr outputs \<Rightarrow>
        (let probabilities = softmax outputs in
         case torch_max probabilities of
          Inl e \<Rightarrow> Inl e
        | Inr (conf, predicted_idx) \<Rightarrow>
        (case species_mapping self predicted_idx of
          None \<Rightarrow> Inl (KeyError (str_of_nat predicted_idx))
        | Some species \<Rightarrow>
        (case torch_topk probabilities (min 3 (card (dom (species_mapping self)))) of
          Inl e \<Rightarrow> Inl e
        | Inr top_k \<Rightarrow>
        (case label_top (species_mapping self) top_k of
          Inl e \<Rightarrow> Inl e
        | Inr top_items \<Rightarrow>
            Inr \<lparr>image_path = Some path, predicted_species = Some species,
                 confidence = Some conf,
                 is_confident = Some (conf \<ge> confidence_threshold self),
                 top_predictions = Some top_items, pred_timestamp = Some now,
                 error = None\<rparr>)))))))"

text \<open>\<^verbatim>\<open>Predictor.predict_batch\<close>: the loop appends one item per image to
  \<open>results\<close>. \<open>clock i\<close> is the reading of the clock while the item with index \<open>i\<close>
  is processed. \<^verbatim>\<open>except Exception\<close> catches every exception of the model.\<close>

fun predict_batch_loop ::
  "('m, 'img) externals \<Rightarrow> (nat \<Rightarrow> string) \<Rightarrow> 'm predictor \<Rightarrow> prediction list \<Rightarrow> string list
     \<Rightarrow> prediction list" where
  "predict_batch_loop ext clock self results [] = results"
| "predict_batch_loop ext clock self results (path # rest) =
     (case predict_single ext (clock (length results)) self path of
        Inr result \<Rightarrow> predict_batch_loop ext clock self (results @ [result]) rest
      | Inl e \<Rightarrow>
          predict_batch_loop ext clock self (results @ [error_record path (str_of_error e)]) rest)"

definition predict_batch ::
  "('m, 'img) externals \<Rightarrow> (nat \<Rightarrow> string) \<Rightarrow> 'm predictor \<Rightarrow> string list \<Rightarrow> prediction list" where
  "predict_batch ext clock self image_paths = predict_batch_loop ext clock self [] image_paths"

subsection \<open>Enumerating a directory\<close>

text \<open>A directory tree: the entries of a directory in the order the file system
  enumerates them.\<close>

datatype fs_node = File string | Dir string "fs_node list"

fun node_name :: "fs_node \<Rightarrow> string" where
  "node_name (File n) = n"
| "node_name (Dir n entries) = n"

text \<open>\<^verbatim>\<open>str(directory / name)\<close>.\<close>

definition join_path :: "string \<Rightarrow> string \<Rightarrow> string" where
  "join_path dir name = dir @ ''/'' @ name"

text \<open>\<^verbatim>\<open>str.lower\<close> on ASCII letters.\<close>

definition lower_char :: "char \<Rightarrow> char" where
  "lower_char c =
     (if 65 \<le> (of_char c :: nat) \<and> (of_char c :: nat) \<le> 90 then char_of (of_char c + 32 :: nat)
      else c)"

definition lower :: "string \<Rightarrow> string" where
  "lower s = map lower_char s"

text \<open>\<^verbatim>\<open>PurePath.suffix\<close> of the Python library on a file name: the part from the
  last dot on, empty when the name has no dot, starts with its only dot or ends
  with a dot.\<close>

definition path_suffix :: "string \<Rightarrow> string" where
  "path_suffix name =
     (if CHR ''.'' \<notin> set name then []
      else
        let i = length name - length (takeWhile (\<lambda>c. c \<noteq> CHR ''.'') (rev name)) - 1
        in if 0 < i \<and> i < length name - 1 then drop i name else [])"

text \<open>The pattern \<^verbatim>\<open>'*' + ext\<close> of the Python library's \<^verbatim>\<open>glob\<close> on a POSIX file
  system: it matches the names that end with \<open>ext\<close>, letter case included.\<close>

definition matches_star :: "string \<Rightarrow> string \<Rightarrow> bool" where
  "matches_star ext name =
     (length ext \<le> length name \<and> drop (length name - length ext) name = ext)"

text \<open>\<^verbatim>\<open>directory.glob('*')\<close>: the entries of the directory, files and
  directories. The result is the list of their names.\<close>

definition glob_star :: "fs_node list \<Rightarrow> string list" where
  "glob_star entries = map node_name entries"

text \<open>\<^verbatim>\<open>directory.rglob('*' + ext)\<close>: the matching entries of the directory, then
  those of each of its subdirectories in turn, at every depth. The result is the
  list of their paths.\<close>

fun rglob_star :: "string \<Rightarrow> string \<Rightarrow> fs_node list \<Rightarrow> string list"
  and rglob_below :: "string \<Rightarrow> string \<Rightarrow> fs_node \<Rightarrow> string list" where
  "rglob_star ext dir entries =
     map (join_path dir) (filter (matches_star ext) (map node_name entries))
     @ concat (map (rglob_below ext dir) entries)"
| "rglob_below ext dir (File n) = []"
| "rglob_below ext dir (Dir n entries) = rglob_star ext (join_path dir n) entries"

text \<open>\<^verbatim>\<open>valid_extensions\<close>. The source holds them in a set, whose iteration order
  is not fixed; the list fixes one order.\<close>

definition valid_extensions :: "string list" where
  "valid_extensions = [''.jpg'', ''.jpeg'', ''.png'', ''.bmp'']"

text \<open>The list \<open>image_paths\<close> that \<^verbatim>\<open>predict_directory\<close> builds.\<close>

definition directory_image_paths :: "string \<Rightarrow> fs_node list \<Rightarrow> bool \<Rightarrow> string list" where
  "directory_image_paths directory entries recursive =
     (if recursive
      then concat (map (\<lambda>ext. rglob_star ext directory entries) valid_extensions)
      else map (join_path directory)
             (filter (\<lambda>f. lower (path_suffix f) \<in> set valid_extensions) (glob_star entries)))"

definition predict_directory ::
  "('m, 'img) externals \<Rightarrow> (nat \<Rightarrow> string) \<Rightarrow> 'm predictor \<Rightarrow> string \<Rightarrow> fs_node list \<Rightarrow> bool
     \<Rightarrow> prediction list" where
  "predict_directory ext clock self directory entries recursive =
     predict_batch ext clock self (directory_image_paths directory entries recursive)"

subsection \<open>Statistics of a batch\<close>

record prediction_statistics =
  total_predictions :: nat
  confident_predictions :: nat
  confidence_rate :: real
  average_confidence :: real
  species_distribution :: "string \<rightharpoonup> nat"
  errors :: int

text \<open>\<^verbatim>\<open>[p for p in valid_predictions if p['is_confident']]\<close>.\<close>

fun confident_of :: "prediction list \<Rightarrow> py_error + prediction list" where
  "confident_of [] = Inr []"
| "confident_of (p # ps) =
     (case is_confident p of
        None \<Rightarrow> Inl (KeyError ''is_confident'')
      | Some b \<Rightarrow>
          (case confident_of ps of
             Inl e \<Rightarrow> Inl e
           | Inr cs \<Rightarrow> Inr (if b then p # cs else cs)))"

text \<open>\<^verbatim>\<open>counts[key] = counts.get(key, 0) + 1\<close> and \<^verbatim>\<open>counts[key] += 1\<close> on a
  \<^verbatim>\<open>defaultdict(int)\<close>.\<close>

definition count_up :: "(string \<rightharpoonup> nat) \<Rightarrow> string \<Rightarrow> (string \<rightharpoonup> nat)" where
  "count_up counts key = counts(key \<mapsto> (case counts key of None \<Rightarrow> 0 | Some n \<Rightarrow> n) + 1)"

text \<open>The loop over \<open>valid_predictions\<close> with its two accumulators.\<close>

fun tally ::
  "(string \<rightharpoonup> nat) \<Rightarrow> real \<Rightarrow> prediction list \<Rightarrow> py_error + (string \<rightharpoonup> nat) \<times> real" where
  "tally species_counts total_confidence [] = Inr (species_counts, total_confidence)"
| "tally species_counts total_confidence (pred # rest) =
     (case predicted_species pred of
        None \<Rightarrow> Inl (KeyError ''predicted_species'')
      | Some species \<Rightarrow>
          (case confidence pred of
             None \<Rightarrow> Inl (KeyError ''confidence'')
           | Some c \<Rightarrow> tally (count_up species_counts species) (total_confidence + c) rest))"

definition get_prediction_statistics :: "prediction list \<Rightarrow> py_error + prediction_statistics" where
  "get_prediction_statistics predictions =
     (let valid_predictions = filter (\<lambda>p. error p = None) predictions in
      case confident_of valid_predictions of
        Inl e \<Rightarrow> Inl e
      | Inr confident \<Rightarrow>
          (case tally Map.empty 0 valid_predictions of
             Inl e \<Rightarrow> Inl e
           | Inr (species_counts, total_confidence) \<Rightarrow>
               Inr \<lparr>total_predictions = length valid_predictions,
                    confident_predictions = length confident,
                    confidence_rate =
                      (if valid_predictions \<noteq> []
                       then real (length confident) / real (length valid_predictions) else 0),
                    average_confidence =
                      (if valid_predictions \<noteq> []
                       then total_confidence / real (length valid_predictions) else 0),
                    species_distribution = species_counts,
                    errors = int (length predictions) - int (length valid_predictions)\<rparr>))"

text \<open>A record of the kind \<^verbatim>\<open>predict_batch\<close> returns: an error record, or a
  prediction with its label, its confidence and its confidence flag.\<close>

definition well_formed :: "prediction \<Rightarrow> bool" where
  "well_formed p =
     (if error p = None
      then predicted_species p \<noteq> None \<and> confidence p \<noteq> None \<and> is_confident p \<noteq> None
      else True)"

text \<open>Two predictions and an error record, for the statistics.\<close>

definition sample_prediction :: "string \<Rightarrow> string \<Rightarrow> real \<Rightarrow> bool \<Rightarrow> prediction" where
  "sample_prediction path species conf sure =
     \<lparr>image_path = Some path, predicted_species = Some species, confidence = Some conf,
      is_confident = Some sure, top_predictions = Some [(species, conf)],
      pred_timestamp = Some ''2026-11-04T10:00:00'', error = None\<rparr>"

definition sample_results :: "prediction list" where
  "sample_results =
     [sample_prediction ''a.jpg'' ''Lion'' 0.9 True,
      error_record ''b.jpg'' ''cannot identify image file'',
      sample_prediction ''c.jpg'' ''Zebra'' 0.3 False]"

subsection \<open>The predictor as a state machine\<close>

text \<open>The methods of the predictor as calls, and the object a call leaves behind:
  \<^verbatim>\<open>load_model\<close> is the only method that assigns an attribute.\<close>

datatype predictor_call =
    Load_model
  | Predict_single string
  | Predict_batch "string list"
  | Predict_directory string "fs_node list" bool
  | Get_prediction_statistics "prediction list"

fun after_call :: "('m, 'img) externals \<Rightarrow> 'm predictor \<Rightarrow> predictor_call \<Rightarrow> 'm predictor" where
  "after_call ext self Load_model = snd (load_model ext self)"
| "after_call ext self (Predict_single path) = self"
| "after_call ext self (Predict_batch paths) = self"
| "after_call ext self (Predict_directory directory entries recursive) = self"
| "after_call ext self (Get_prediction_statistics predictions) = self"

subsection \<open>A concrete predictor\<close>

text \<open>Three species; a network that scores every image \<open>[5, 1, 0.1]\<close>; an image
  library that cannot read the file \<open>broken.jpg\<close>.\<close>

definition zoo_mapping :: "nat \<rightharpoonup> string" where
  "zoo_mapping = [0 \<mapsto> ''Lion'', 1 \<mapsto> ''Elephant'', 2 \<mapsto> ''Zebra'']"

definition zoo_externals :: "(unit, string) externals" where
  "zoo_externals =
     \<lparr>open_image = (\<lambda>path. if path = ''broken.jpg''
                             then Inl (ExternalError ''cannot identify image file'')
                             else Inr path),
      model_class = (\<lambda>n. Inr ()),
      load_weights = (\<lambda>m path dev. Inr m),
      forward = (\<lambda>m image. Inr [5, 1, 0.1])\<rparr>"

definition zoo_unloaded :: "unit predictor" where
  "zoo_unloaded = new_predictor ''model.pt'' zoo_mapping ''cpu'' 0.5"

definition zoo_predictor :: "unit predictor" where
  "zoo_predictor = snd (load_model zoo_externals zoo_unloaded)"

section \<open>PredictionLogger\<close>

text \<open>The session logs on disk: a log file is the list of the records on its lines
  (\<^verbatim>\<open>json.dumps\<close> on writing and \<^verbatim>\<open>json.loads\<close> on reading are taken as inverse
  to each other), and a path with no file maps to \<open>None\<close>.\<close>

type_synonym log_files = "string \<rightharpoonup> prediction list"

record prediction_logger =
  log_dir :: string
  current_session_path :: string

text \<open>\<^verbatim>\<open>PredictionLogger.__init__\<close> with \<^verbatim>\<open>_create_new_session\<close>: \<open>stamp\<close> is the
  formatted reading of the clock. No file is created.\<close>

definition new_logger :: "string \<Rightarrow> string \<Rightarrow> prediction_logger" where
  "new_logger dir stamp =
     \<lparr>log_dir = dir, current_session_path = dir @ ''/session_'' @ stamp @ ''.jsonl''\<rparr>"

text \<open>\<^verbatim>\<open>log_prediction\<close>: opening for append creates the file when there is none.\<close>

definition log_prediction :: "prediction_logger \<Rightarrow> log_files \<Rightarrow> prediction \<Rightarrow> log_files" where
  "log_prediction self files pred =
     files(current_session_path self \<mapsto>
       (case files (current_session_path self) of None \<Rightarrow> [] | Some lines \<Rightarrow> lines) @ [pred])"

fun log_batch :: "prediction_logger \<Rightarrow> log_files \<Rightarrow> prediction list \<Rightarrow> log_files" where
  "log_batch self files [] = files"
| "log_batch self files (pred # rest) = log_batch self (log_prediction self files pred) rest"

record session_statistics =
  session_total_predictions :: nat
  session_successful_predictions :: int
  session_errors :: nat
  session_average_confidence :: real
  session_min_confidence :: real
  session_max_confidence :: real
  session_std_confidence :: real
  session_species_distribution :: "string \<rightharpoonup> nat"

text \<open>The loop over the records of the log with its three accumulators.\<close>

fun scan_log ::
  "(string \<rightharpoonup> nat) \<Rightarrow> real list \<Rightarrow> nat \<Rightarrow> prediction list
     \<Rightarrow> py_error + (string \<rightharpoonup> nat) \<times> real list \<times> nat" where
  "scan_log species_counts confidence_scores error_count [] =
     Inr (species_counts, confidence_scores, error_count)"
| "scan_log species_counts confidence_scores error_count (pred # rest) =
     (if error pred \<noteq> None
      then scan_log species_counts confidence_scores (error_count + 1) rest
      else
        case predicted_species pred of
          None \<Rightarrow> Inl (KeyError ''predicted_species'')
        | Some species \<Rightarrow>
            (case confidence pred of
               None \<Rightarrow> Inl (KeyError ''confidence'')
             | Some c \<Rightarrow>
                 scan_log (count_up species_counts species) (confidence_scores @ [c])
                   error_count rest))"

text \<open>\<^verbatim>\<open>get_session_statistics\<close>. The result \<open>None\<close> is the empty dictionary
  \<^verbatim>\<open>{}\<close>, returned when the log file does not exist. An empty \<open>session_file\<close>
  argument counts as none given.\<close>

definition get_session_statistics ::
  "prediction_logger \<Rightarrow> log_files \<Rightarrow> string option \<Rightarrow> py_error + session_statistics option" where
  "get_session_statistics self files session_file =
     (let log_file = (case session_file of
                        None \<Rightarrow> current_session_path self
                      | Some f \<Rightarrow> if f \<noteq> [] then f else current_session_path self) in
      case files log_file of
        None \<Rightarrow> Inr None
      | Some predictions \<Rightarrow>
          (case scan_log Map.empty [] 0 predictions of
             Inl e \<Rightarrow> Inl e
           | Inr (species_counts, confidence_scores, error_count) \<Rightarrow>
               Inr (Some
                 \<lparr>session_total_predictions = length predictions,
                  session_successful_predictions = int (length predictions) - int error_count,
                  session_errors = error_count,
                  session_average_confidence =
                    (if confidence_scores \<noteq> [] then np_mean confidence_scores else 0),
                  session_min_confidence =
                    (if confidence_scores \<noteq> [] then np_min confidence_scores else 0),
                  session_max_confidence =
                    (if confidence_scores \<noteq> [] then np_max confidence_scores else 0),
                  session_std_confidence =
                    (if confidence_scores \<noteq> [] then np_std confidence_scores else 0),
                  session_species_distribution = species_counts\<rparr>)))"

text \<open>The statistics of an empty log.\<close>

definition zero_statistics :: session_statistics where
  "zero_statistics =
     \<lparr>session_total_predictions = 0, session_successful_predictions = 0, session_errors = 0,
      session_average_confidence = 0, session_min_confidence = 0, session_max_confidence = 0,
      session_std_confidence = 0, session_species_distribution = Map.empty\<rparr>"

text \<open>A record the statistics can read: an error record, or a record with a label
  and a confidence.\<close>

definition log_readable :: "prediction \<Rightarrow> bool" where
  "log_readable p =
     (if error p = None then predicted_species p \<noteq> None \<and> confidence p \<noteq> None else True)"

text \<open>A logger and the log that holds the sample results.\<close>

definition sample_logger :: prediction_logger where
  "sample_logger = new_logger ''data/predictions_log'' ''20261104_100000''"

definition sample_files :: log_files where
  "sample_files = log_batch sample_logger Map.empty sample_results"

section \<open>Properties of the monitor\<close>

lemma py_last_n_10:
  "py_last_n 10 xs = drop (length xs - min 10 (length xs)) xs"
  "length (py_last_n 10 xs) = min 10 (length xs)"
  by (auto simp: py_last_n_def min_def)

text \<open>
  C2 (as stated, refuted). The claim ends with "so an accuracy improvement is
  never flagged as drift". With the history of accuracies \<open>[0.5, 0.9]\<close> the recent
  mean \<open>0.7\<close> is above the first accuracy \<open>0.5\<close>, and with the threshold \<open>-1\<close> the
  drop \<open>-0.2\<close> is still greater than the threshold: drift is reported for an
  improvement.
\<close>

theorem detect_drift_flags_improvement:
  "drift_detected (detect_performance_drift (monitor_of [0.5, 0.9]) (- 1)) \<and>
   oldest_accuracy (detect_performance_drift (monitor_of [0.5, 0.9]) (- 1)) = 0.5 \<and>
   recent_accuracy (detect_performance_drift (monitor_of [0.5, 0.9]) (- 1)) = 0.7"
  by (simp add: detect_performance_drift_def monitor_of_def py_last_n_def np_mean_def
      metric_get_def acc_entry_def)

text \<open>
  C2 (amended). With fewer than two history entries \<^const>\<open>detect_performance_drift\<close>
  reports no drift with the reason "Insufficient data". Otherwise the reported
  accuracy drop is the accuracy of the first entry of the history minus the mean
  accuracy of its last \<open>min 10 (length history)\<close> entries (a missing accuracy counts
  as \<open>0\<close>), and drift is reported exactly when the drop is strictly greater than the
  threshold; for a non-negative threshold an improvement (a drop that is not
  positive) is never reported as drift.
\<close>

theorem detect_drift_spec:
  "(length (metrics_history self) < 2 \<longrightarrow>
      detect_performance_drift self t = InsufficientData False ''Insufficient data'') \<and>
   (2 \<le> length (metrics_history self) \<longrightarrow>
      (let h = metrics_history self;
           k = min 10 (length h);
           recent = drop (length h - k) h;
           d = metric_get (h ! 0) ''accuracy'' 0
               - (\<Sum>m\<leftarrow>recent. metric_get m ''accuracy'' 0) / real k
       in accuracy_drop (detect_performance_drift self t) = d \<and>
          drift_detected (detect_performance_drift self t) = (d > t) \<and>
          (0 \<le> t \<and> d \<le> 0 \<longrightarrow> \<not> drift_detected (detect_performance_drift self t))))"
proof (intro conjI impI)
  assume "length (metrics_history self) < 2"
  then show "detect_performance_drift self t = InsufficientData False ''Insufficient data''"
    by (simp add: detect_performance_drift_def)
next
  assume two: "2 \<le> length (metrics_history self)"
  then have not_short: "\<not> length (metrics_history self) < 2"
    by simp
  show "let h = metrics_history self;
            k = min 10 (length h);
            recent = drop (length h - k) h;
            d = metric_get (h ! 0) ''accuracy'' 0
                - (\<Sum>m\<leftarrow>recent. metric_get m ''accuracy'' 0) / real k
        in accuracy_drop (detect_performance_drift self t) = d \<and>
           drift_detected (detect_performance_drift self t) = (d > t) \<and>
           (0 \<le> t \<and> d \<le> 0 \<longrightarrow> \<not> drift_detected (detect_performance_drift self t))"
    using not_short
    by (simp add: detect_performance_drift_def Let_def np_mean_def py_last_n_10)
qed

theorem detect_drift_spec_witness:
  "detect_performance_drift (monitor_of [0.9]) 0.05
     = InsufficientData False ''Insufficient data'' \<and>
   accuracy_drop (detect_performance_drift (monitor_of [0.9, 0.8, 0.7]) 0.05) = 0.1 \<and>
   drift_detected (detect_performance_drift (monitor_of [0.9, 0.8, 0.7]) 0.05) \<and>
   \<not> drift_detected (detect_performance_drift (monitor_of [0.5, 0.9]) 0.05)"
  using detect_drift_spec [of "monitor_of [0.9]" "0.05"]
    detect_drift_spec [of "monitor_of [0.9, 0.8, 0.7]" "0.05"]
    detect_drift_spec [of "monitor_of [0.5, 0.9]" "0.05"]
  by (simp add: monitor_of_def acc_entry_def metric_get_def Let_def)

section \<open>Properties of the trainer\<close>

lemma fit_epoch_stop:
  "snd (fit_epoch fw fb u e st) = (max_patience \<le> patience_counter (fst (fit_epoch fw fb u e st)))"
  by (simp add: fit_epoch_def Let_def max_patience_def split: prod.splits)

lemma fit_epoch_counter:
  "patience_counter (fst (fit_epoch fw fb u e st)) \<le> Suc (patience_counter st)"
  by (simp add: fit_epoch_def Let_def split: prod.splits)

lemma fit_epoch_history_length:
  "length (val_loss (history (the_trainer (fst (fit_epoch fw fb u e st)))))
     = Suc (length (val_loss (history (the_trainer st))))"
  by (simp add: fit_epoch_def Let_def save_checkpoint_def split: prod.splits)

lemma after_epochs_history_length:
  "length (val_loss (history (the_trainer (after_epochs fw fb u st k))))
     = length (val_loss (history (the_trainer st))) + k"
  by (induction k) (simp_all add: fit_epoch_history_length)

lemma fit_loop_after:
  "\<exists>N. e \<le> N \<and> N \<le> e + n \<and>
       fit_loop fw fb u n (Suc e) (after_epochs fw fb u st0 e) = after_epochs fw fb u st0 N \<and>
       (\<forall>k. e < k \<and> k < N \<longrightarrow> patience_counter (after_epochs fw fb u st0 k) < max_patience) \<and>
       (N = e + n \<or> (e < N \<and> max_patience \<le> patience_counter (after_epochs fw fb u st0 N)))"
proof (induction n arbitrary: e)
  case 0
  show ?case by (rule exI [of _ e]) simp
next
  case (Suc n)
  define st' where "st' = after_epochs fw fb u st0 (Suc e)"
  have step: "fit_epoch fw fb u (Suc e) (after_epochs fw fb u st0 e)
      = (st', max_patience \<le> patience_counter st')"
    using fit_epoch_stop [of fw fb u "Suc e" "after_epochs fw fb u st0 e"]
    by (simp add: prod_eq_iff st'_def)
  have loop: "fit_loop fw fb u (Suc n) (Suc e) (after_epochs fw fb u st0 e)
      = (if max_patience \<le> patience_counter st' then st'
         else fit_loop fw fb u n (Suc (Suc e)) st')"
    by (simp add: step)
  show ?case
  proof (cases "max_patience \<le> patience_counter st'")
    case True
    have "fit_loop fw fb u (Suc n) (Suc e) (after_epochs fw fb u st0 e)
        = after_epochs fw fb u st0 (Suc e)"
      using True loop by (simp only: st'_def if_True)
    moreover have "max_patience \<le> patience_counter (after_epochs fw fb u st0 (Suc e))"
      using True by (simp only: st'_def)
    moreover have "\<forall>k. e < k \<and> k < Suc e \<longrightarrow>
        patience_counter (after_epochs fw fb u st0 k) < max_patience"
      by auto
    ultimately show ?thesis
      by (intro exI [of _ "Suc e"]) (simp del: after_epochs.simps fit_loop.simps)
  next
    case False
    from Suc.IH [of "Suc e"] obtain N where N: "Suc e \<le> N" "N \<le> Suc e + n"
      "fit_loop fw fb u n (Suc (Suc e)) (after_epochs fw fb u st0 (Suc e))
         = after_epochs fw fb u st0 N"
      "\<forall>k. Suc e < k \<and> k < N \<longrightarrow> patience_counter (after_epochs fw fb u st0 k) < max_patience"
      "N = Suc e + n \<or> (Suc e < N \<and> max_patience \<le> patience_counter (after_epochs fw fb u st0 N))"
      by blast
    have small: "patience_counter (after_epochs fw fb u st0 (Suc e)) < max_patience"
      using False by (simp only: st'_def not_le)
    have "\<forall>k. e < k \<and> k < N \<longrightarrow> patience_counter (after_epochs fw fb u st0 k) < max_patience"
    proof (intro allI impI)
      fix k assume "e < k \<and> k < N"
      then have "k = Suc e \<or> (Suc e < k \<and> k < N)" by arith
      then show "patience_counter (after_epochs fw fb u st0 k) < max_patience"
        using small N(4) by blast
    qed
    moreover have "fit_loop fw fb u (Suc n) (Suc e) (after_epochs fw fb u st0 e)
        = after_epochs fw fb u st0 N"
      using False loop N(3) by (simp only: st'_def if_False)
    moreover have "e \<le> N" "N \<le> e + Suc n" using N(1,2) by simp_all
    moreover have "N = e + Suc n \<or> (e < N \<and> max_patience \<le> patience_counter (after_epochs fw fb u st0 N))"
      using N(1,5) by auto
    ultimately show ?thesis
      by (intro exI [of _ N]) (simp del: after_epochs.simps fit_loop.simps)
  qed
qed


lemma fit_after_0: "fit_after fw self fb u 0 = fit_start self fb"
  by (simp add: fit_after_def)

lemma fit_after_Suc:
  "fit_after fw self fb u (Suc k) = fst (fit_epoch fw fb u (Suc k) (fit_after fw self fb u k))"
  by (simp add: fit_after_def)

lemma fit_after_counter_Suc:
  "patience_counter (fit_after fw self fb u (Suc k)) \<le> Suc (patience_counter (fit_after fw self fb u k))"
  by (simp only: fit_after_Suc fit_epoch_counter)

lemma fit_run_after:
  "\<exists>N. N \<le> nat epochs \<and>
       fit_run fw self epochs fb u = fit_after fw self fb u N \<and>
       (\<forall>k<N. patience_counter (fit_after fw self fb u k) < max_patience) \<and>
       (N = nat epochs \<or> patience_counter (fit_after fw self fb u N) = max_patience)"
proof -
  from fit_loop_after [of 0 "nat epochs" fw fb u "fit_start self fb"]
  obtain N where N: "N \<le> nat epochs"
    "fit_loop fw fb u (nat epochs) (Suc 0) (fit_start self fb) = fit_after fw self fb u N"
    "\<forall>k. 0 < k \<and> k < N \<longrightarrow> patience_counter (fit_after fw self fb u k) < max_patience"
    "N = nat epochs \<or> (0 < N \<and> max_patience \<le> patience_counter (fit_after fw self fb u N))"
    by (auto simp: fit_after_def)
  have zero: "patience_counter (fit_after fw self fb u 0) < max_patience"
    by (simp add: fit_after_0 fit_start_def max_patience_def)
  have below: "\<forall>k<N. patience_counter (fit_after fw self fb u k) < max_patience"
  proof (intro allI impI)
    fix k assume "k < N"
    show "patience_counter (fit_after fw self fb u k) < max_patience"
    proof (cases k)
      case 0 then show ?thesis using zero by simp
    next
      case (Suc j) then show ?thesis using N(3) \<open>k < N\<close> by simp
    qed
  qed
  have last: "N = nat epochs \<or> patience_counter (fit_after fw self fb u N) = max_patience"
  proof (cases "N = nat epochs")
    case True then show ?thesis by simp
  next
    case False
    then have pos: "0 < N" and ge: "max_patience \<le> patience_counter (fit_after fw self fb u N)"
      using N(4) by auto
    then obtain j where j: "N = Suc j" by (cases N) auto
    have "patience_counter (fit_after fw self fb u j) < max_patience"
      using below j by simp
    then have "patience_counter (fit_after fw self fb u N) \<le> max_patience"
      using fit_after_counter_Suc [of fw self fb u j] j by simp
    then show ?thesis using ge by simp
  qed
  show ?thesis
    using N(1,2) below last by (intro exI [of _ N]) (simp add: fit_run_def)
qed

lemma fit_after_history_length:
  "length (val_loss (history (the_trainer (fit_after fw self fb u k))))
     = length (val_loss (history self)) + k"
  by (simp add: fit_after_def after_epochs_history_length fit_start_def)

lemma fit_run_epochs_run:
  "fit_run fw self epochs fb u = fit_after fw self fb u (epochs_run fw self epochs fb u)"
  "epochs_run fw self epochs fb u \<le> nat epochs"
  "\<forall>k<epochs_run fw self epochs fb u. patience_counter (fit_after fw self fb u k) < max_patience"
  "epochs_run fw self epochs fb u = nat epochs \<or>
   patience_counter (fit_after fw self fb u (epochs_run fw self epochs fb u)) = max_patience"
proof -
  from fit_run_after [of epochs fw self fb u] obtain N where N: "N \<le> nat epochs"
    "fit_run fw self epochs fb u = fit_after fw self fb u N"
    "\<forall>k<N. patience_counter (fit_after fw self fb u k) < max_patience"
    "N = nat epochs \<or> patience_counter (fit_after fw self fb u N) = max_patience"
    by blast
  have "epochs_run fw self epochs fb u = N"
    by (simp add: epochs_run_def fit_def N(2) fit_after_history_length)
  with N show "fit_run fw self epochs fb u = fit_after fw self fb u (epochs_run fw self epochs fb u)"
    "epochs_run fw self epochs fb u \<le> nat epochs"
    "\<forall>k<epochs_run fw self epochs fb u. patience_counter (fit_after fw self fb u k) < max_patience"
    "epochs_run fw self epochs fb u = nat epochs \<or>
     patience_counter (fit_after fw self fb u (epochs_run fw self epochs fb u)) = max_patience"
    by simp_all
qed

lemma fit_epoch_improved:
  assumes "below_best (fst (validate fw e)) (best_val_loss st)"
  shows "patience_counter (fst (fit_epoch fw fb u e st)) = 0"
    and "best_val_loss (fst (fit_epoch fw fb u e st)) = Some (fst (validate fw e))"
    and "checkpoints (the_trainer (fst (fit_epoch fw fb u e st))) =
           checkpoints (the_trainer st) @
           [\<lparr>ckpt_epoch = e, ckpt_val_acc = snd (validate fw e),
             ckpt_history = history (the_trainer (fst (fit_epoch fw fb u e st)))\<rparr>]"
  using assms by (simp_all add: fit_epoch_def Let_def save_checkpoint_def case_prod_beta)

lemma fit_epoch_not_improved:
  assumes "\<not> below_best (fst (validate fw e)) (best_val_loss st)"
  shows "patience_counter (fst (fit_epoch fw fb u e st)) = patience_counter st + 1"
    and "best_val_loss (fst (fit_epoch fw fb u e st)) = best_val_loss st"
    and "checkpoints (the_trainer (fst (fit_epoch fw fb u e st))) = checkpoints (the_trainer st)"
  using assms by (simp_all add: fit_epoch_def Let_def save_checkpoint_def case_prod_beta)

lemma fit_after_best:
  "best_val_loss (fit_after fw self fb u k) =
     (if k = 0 then None else Some (Min ((\<lambda>e. fst (validate fw e)) ` {1..k})))"
proof (induction k)
  case 0
  show ?case by (simp add: fit_after_0 fit_start_def)
next
  case (Suc k)
  let ?v = "fst (validate fw (Suc k))"
  let ?st = "fit_after fw self fb u k"
  have set_eq: "{1..Suc k} = insert (Suc k) {1..k}" by auto
  show ?case
  proof (cases "k = 0")
    case True
    then have "best_val_loss ?st = None" using Suc.IH by simp
    then have "below_best ?v (best_val_loss ?st)" by simp
    from fit_epoch_improved(2) [OF this] show ?thesis
      using True by (simp add: fit_after_Suc)
  next
    case False
    let ?m = "Min ((\<lambda>e. fst (validate fw e)) ` {1..k})"
    have best: "best_val_loss ?st = Some ?m" using Suc.IH False by simp
    have ne: "(\<lambda>e. fst (validate fw e)) ` {1..k} \<noteq> {}" using False by simp
    have Min_eq: "Min ((\<lambda>e. fst (validate fw e)) ` {1..Suc k}) = min ?v ?m"
      using ne by (simp only: set_eq image_insert) (simp add: Min_insert)
    show ?thesis
    proof (cases "?v < ?m")
      case True
      then have "below_best ?v (best_val_loss ?st)" using best by simp
      from fit_epoch_improved(2) [OF this] show ?thesis
        using True Min_eq by (simp add: fit_after_Suc min_def)
    next
      case nb: False
      then have "\<not> below_best ?v (best_val_loss ?st)" using best by simp
      from fit_epoch_not_improved(2) [OF this] show ?thesis
        using nb Min_eq best by (simp add: fit_after_Suc min_def)
    qed
  qed
qed


lemma length_freeze_backbone: "length (freeze_backbone ps) = length ps"
  by (cases "ps = []") (simp_all add: freeze_backbone_def)

lemma unfreeze_freeze: "unfreeze_backbone (freeze_backbone ps) = unfreeze_backbone ps"
  by (simp add: unfreeze_backbone_def map_replicate_const length_freeze_backbone)

lemma unfreeze_unfreeze: "unfreeze_backbone (unfreeze_backbone ps) = unfreeze_backbone ps"
  by (simp add: unfreeze_backbone_def)

lemma freeze_neq_unfreeze:
  assumes "2 \<le> length ps"
  shows "freeze_backbone ps \<noteq> unfreeze_backbone ps"
proof
  assume eq: "freeze_backbone ps = unfreeze_backbone ps"
  have pos: "0 < length ps" "0 < length ps - 1" "ps \<noteq> []"
    using assms by auto
  have "freeze_backbone ps ! 0 = False"
    using pos by (simp add: freeze_backbone_def nth_append)
  moreover have "unfreeze_backbone ps ! 0 = True"
    using pos by (simp add: unfreeze_backbone_def)
  ultimately show False using eq by simp
qed

lemma fit_epoch_requires_grad:
  "requires_grad (the_trainer (fst (fit_epoch fw fb u e st))) =
     (if int e = u \<and> fb then unfreeze_backbone (requires_grad (the_trainer st))
      else requires_grad (the_trainer st))"
  by (simp add: fit_epoch_def Let_def save_checkpoint_def case_prod_beta)

lemma fit_epoch_train_loss:
  "train_loss (history (the_trainer (fst (fit_epoch fw fb u e st)))) =
     train_loss (history (the_trainer st)) @
     [fst (train_epoch fw e (requires_grad (the_trainer (fst (fit_epoch fw fb u e st)))))]"
  by (simp add: fit_epoch_def Let_def save_checkpoint_def case_prod_beta)

lemma fit_after_requires_grad:
  "requires_grad (the_trainer (fit_after fw self True u k)) =
     (if 1 \<le> u \<and> u \<le> int k then unfreeze_backbone (requires_grad self)
      else freeze_backbone (requires_grad self))"
proof (induction k)
  case 0
  show ?case by (auto simp: fit_after_0 fit_start_def)
next
  case (Suc k)
  show ?case
    using Suc.IH
    by (simp only: fit_after_Suc fit_epoch_requires_grad)
       (auto simp: unfreeze_freeze unfreeze_unfreeze)
qed

text \<open>
  C8 (amended). In a run of \<^const>\<open>fit\<close> with backbone freezing requested there are
  two phases: BackboneFrozen, with the flags that \<^const>\<open>freeze_backbone\<close> left, and
  FullyUnfrozen, with the flags that \<^const>\<open>unfreeze_backbone\<close> sets. The phase in
  force after the unfreeze test of epoch \<open>k\<close> is BackboneFrozen while
  \<open>k < unfreeze_at_epoch\<close> (and for every \<open>k\<close> when \<open>unfreeze_at_epoch < 1\<close>),
  and FullyUnfrozen from the epoch \<open>unfreeze_at_epoch\<close> on: the change happens at
  most once, at the start of that epoch, and not before. The training pass of
  every epoch runs with the flags of its phase, and the flags decide which
  parameters the framework gives a gradient, which is how the phase is observed.
  The run executes \<^const>\<open>epochs_run\<close> epochs, at most the configured number, so
  the change happens in the run exactly when
  \<open>1 \<le> unfreeze_at_epoch \<le> epochs_run\<close>. With two parameters or more the two
  phases differ in their flags.
\<close>

theorem fit_unfreeze_phase:
  "requires_grad (the_trainer (fit_after fw self True u k)) =
     (if 1 \<le> u \<and> u \<le> int k then unfreeze_backbone (requires_grad self)
      else freeze_backbone (requires_grad self)) \<and>
   train_loss (history (the_trainer (fit_after fw self True u (Suc k)))) =
     train_loss (history (the_trainer (fit_after fw self True u k))) @
     [fst (train_epoch fw (Suc k) (requires_grad (the_trainer (fit_after fw self True u (Suc k)))))] \<and>
   fit_run fw self epochs True u = fit_after fw self True u (epochs_run fw self epochs True u) \<and>
   epochs_run fw self epochs True u \<le> nat epochs \<and>
   requires_grad (fit fw self epochs True u) =
     (if 1 \<le> u \<and> u \<le> int (epochs_run fw self epochs True u)
      then unfreeze_backbone (requires_grad self)
      else freeze_backbone (requires_grad self)) \<and>
   (2 \<le> length (requires_grad self) \<longrightarrow>
      freeze_backbone (requires_grad self) \<noteq> unfreeze_backbone (requires_grad self))"
proof (intro conjI)
  show "requires_grad (the_trainer (fit_after fw self True u k)) =
     (if 1 \<le> u \<and> u \<le> int k then unfreeze_backbone (requires_grad self)
      else freeze_backbone (requires_grad self))"
    by (rule fit_after_requires_grad)
  show "train_loss (history (the_trainer (fit_after fw self True u (Suc k)))) =
     train_loss (history (the_trainer (fit_after fw self True u k))) @
     [fst (train_epoch fw (Suc k) (requires_grad (the_trainer (fit_after fw self True u (Suc k)))))]"
    by (simp only: fit_after_Suc fit_epoch_train_loss)
  show "fit_run fw self epochs True u = fit_after fw self True u (epochs_run fw self epochs True u)"
    by (rule fit_run_epochs_run(1))
  show "epochs_run fw self epochs True u \<le> nat epochs"
    by (rule fit_run_epochs_run(2))
  show "requires_grad (fit fw self epochs True u) =
     (if 1 \<le> u \<and> u \<le> int (epochs_run fw self epochs True u)
      then unfreeze_backbone (requires_grad self)
      else freeze_backbone (requires_grad self))"
    by (simp only: fit_def fit_run_epochs_run(1) fit_after_requires_grad)
  show "2 \<le> length (requires_grad self) \<longrightarrow>
      freeze_backbone (requires_grad self) \<noteq> unfreeze_backbone (requires_grad self)"
    by (simp add: freeze_neq_unfreeze)
qed

text \<open>Unfolding \<^const>\<open>fit\<close> on the concrete frameworks and the fresh trainer.\<close>

lemmas fit_eval = fit_def fit_run_def fit_start_def fit_epoch_def flat_framework_def
  fresh_trainer_def freeze_backbone_def unfreeze_backbone_def save_checkpoint_def max_patience_def

text \<open>
  C8 (as stated, refuted). The claim lets the change from the frozen to the
  unfrozen phase happen exactly once in every run that requested freezing. With
  the default arguments (30 epochs, unfreeze at epoch 10) and a validation loss
  that never improves after the first epoch, early stopping ends the run after
  epoch 6: the backbone is still frozen when \<^const>\<open>fit\<close> returns, and the change
  never happened.
\<close>

theorem fit_never_unfreezes:
  "requires_grad (fit flat_framework fresh_trainer 30 True 10) = [False, False, True] \<and>
   length (val_loss (history (fit flat_framework fresh_trainer 30 True 10))) = 6"
  by (simp add: fit_eval eval_nat_numeral)

lemma epochs_run_improving: "epochs_run improving_framework fresh_trainer 12 True 10 = 12"
  by (simp add: epochs_run_def fit_eval improving_framework_def eval_nat_numeral)


text \<open>Witness for C8: unfreezing at epoch 10 of 12, with a loss that improves in
  every epoch. Epoch 9 runs frozen, epoch 10 and the end of the run unfrozen.\<close>

theorem fit_unfreeze_phase_witness:
  "requires_grad (the_trainer (fit_after improving_framework fresh_trainer True 10 9))
     = [False, False, True] \<and>
   requires_grad (the_trainer (fit_after improving_framework fresh_trainer True 10 10))
     = [True, True, True] \<and>
   requires_grad (fit improving_framework fresh_trainer 12 True 10) = [True, True, True] \<and>
   freeze_backbone (requires_grad fresh_trainer) \<noteq> unfreeze_backbone (requires_grad fresh_trainer)"
  using fit_unfreeze_phase [of improving_framework fresh_trainer 10 9 12]
    fit_unfreeze_phase [of improving_framework fresh_trainer 10 10 12]
    epochs_run_improving
  by (simp add: fresh_trainer_def freeze_backbone_def unfreeze_backbone_def)

text \<open>
  C9. Before epoch \<open>k + 1\<close> the best validation loss is the least validation loss of
  the epochs \<open>1..k\<close> (none before the first epoch). If the validation loss of epoch
  \<open>k + 1\<close> is strictly below it, the epoch appends a checkpoint and resets the
  no-improvement counter to 0; otherwise it writes no checkpoint and increments
  the counter by 1. \<^const>\<open>fit\<close> runs \<^const>\<open>epochs_run\<close> epochs, at most the
  configured number; the counter is below 5 before every epoch it runs; and it
  stops before the configured number only with the counter at 5.
\<close>

theorem fit_checkpoint_early_stopping:
  "best_val_loss (fit_after fw self fb u k) =
     (if k = 0 then None else Some (Min ((\<lambda>e. fst (validate fw e)) ` {1..k}))) \<and>
   (below_best (fst (validate fw (Suc k))) (best_val_loss (fit_after fw self fb u k)) \<longrightarrow>
      checkpoints (the_trainer (fit_after fw self fb u (Suc k))) =
        checkpoints (the_trainer (fit_after fw self fb u k)) @
        [\<lparr>ckpt_epoch = Suc k, ckpt_val_acc = snd (validate fw (Suc k)),
          ckpt_history = history (the_trainer (fit_after fw self fb u (Suc k)))\<rparr>] \<and>
      patience_counter (fit_after fw self fb u (Suc k)) = 0) \<and>
   (\<not> below_best (fst (validate fw (Suc k))) (best_val_loss (fit_after fw self fb u k)) \<longrightarrow>
      checkpoints (the_trainer (fit_after fw self fb u (Suc k))) =
        checkpoints (the_trainer (fit_after fw self fb u k)) \<and>
      patience_counter (fit_after fw self fb u (Suc k)) =
        patience_counter (fit_after fw self fb u k) + 1) \<and>
   fit_run fw self epochs fb u = fit_after fw self fb u (epochs_run fw self epochs fb u) \<and>
   epochs_run fw self epochs fb u \<le> nat epochs \<and>
   (j < epochs_run fw self epochs fb u \<longrightarrow> patience_counter (fit_after fw self fb u j) < 5) \<and>
   (epochs_run fw self epochs fb u = nat epochs \<or>
    patience_counter (fit_run fw self epochs fb u) = 5)"
proof (intro conjI impI)
  show "best_val_loss (fit_after fw self fb u k) =
     (if k = 0 then None else Some (Min ((\<lambda>e. fst (validate fw e)) ` {1..k})))"
    by (rule fit_after_best)
next
  assume b: "below_best (fst (validate fw (Suc k))) (best_val_loss (fit_after fw self fb u k))"
  show "checkpoints (the_trainer (fit_after fw self fb u (Suc k))) =
        checkpoints (the_trainer (fit_after fw self fb u k)) @
        [\<lparr>ckpt_epoch = Suc k, ckpt_val_acc = snd (validate fw (Suc k)),
          ckpt_history = history (the_trainer (fit_after fw self fb u (Suc k)))\<rparr>]"
    using fit_epoch_improved(3) [OF b] by (simp only: fit_after_Suc)
  show "patience_counter (fit_after fw self fb u (Suc k)) = 0"
    using fit_epoch_improved(1) [OF b] by (simp only: fit_after_Suc)
next
  assume nb: "\<not> below_best (fst (validate fw (Suc k))) (best_val_loss (fit_after fw self fb u k))"
  show "checkpoints (the_trainer (fit_after fw self fb u (Suc k))) =
        checkpoints (the_trainer (fit_after fw self fb u k))"
    using fit_epoch_not_improved(3) [OF nb] by (simp only: fit_after_Suc)
  show "patience_counter (fit_after fw self fb u (Suc k)) =
        patience_counter (fit_after fw self fb u k) + 1"
    using fit_epoch_not_improved(1) [OF nb] by (simp only: fit_after_Suc)
next
  show "fit_run fw self epochs fb u = fit_after fw self fb u (epochs_run fw self epochs fb u)"
    by (rule fit_run_epochs_run(1))
  show "epochs_run fw self epochs fb u \<le> nat epochs"
    by (rule fit_run_epochs_run(2))
  show "epochs_run fw self epochs fb u = nat epochs \<or>
    patience_counter (fit_run fw self epochs fb u) = 5"
    using fit_run_epochs_run(4) [of fw self epochs fb u]
    by (simp only: fit_run_epochs_run(1) [symmetric] max_patience_def)
next
  assume "j < epochs_run fw self epochs fb u"
  then show "patience_counter (fit_after fw self fb u j) < 5"
    using fit_run_epochs_run(3) [of fw self epochs fb u] by (simp add: max_patience_def)
qed

text \<open>Witness for C9: a validation loss that is the same in every epoch.\<close>

lemma epochs_run_flat: "epochs_run flat_framework fresh_trainer 30 True 10 = 6"
  by (simp add: epochs_run_def fit_eval eval_nat_numeral)

lemma checkpoints_fresh: "checkpoints (the_trainer (fit_after flat_framework fresh_trainer True 10 0)) = []"
  by (simp add: fit_after_0 fit_start_def fresh_trainer_def)

theorem fit_checkpoint_early_stopping_witness:
  "map ckpt_epoch (checkpoints (the_trainer (fit_after flat_framework fresh_trainer True 10 1))) = [1] \<and>
   patience_counter (fit_after flat_framework fresh_trainer True 10 1) = 0 \<and>
   best_val_loss (fit_after flat_framework fresh_trainer True 10 1) = Some 1 \<and>
   checkpoints (the_trainer (fit_after flat_framework fresh_trainer True 10 2)) =
     checkpoints (the_trainer (fit_after flat_framework fresh_trainer True 10 1)) \<and>
   patience_counter (fit_after flat_framework fresh_trainer True 10 2) = 1 \<and>
   epochs_run flat_framework fresh_trainer 30 True 10 = 6 \<and>
   patience_counter (fit_after flat_framework fresh_trainer True 10 4) < 5 \<and>
   patience_counter (fit_run flat_framework fresh_trainer 30 True 10) = 5"
proof -
  note first = fit_checkpoint_early_stopping [of flat_framework fresh_trainer True 10 0 30 4]
  note second = fit_checkpoint_early_stopping [of flat_framework fresh_trainer True 10 1 30 4]
  have v: "validate flat_framework = (\<lambda>e. (1, 50))"
    by (simp add: flat_framework_def)
  have best0: "best_val_loss (fit_after flat_framework fresh_trainer True 10 0) = None"
    using first by simp
  have e1: "checkpoints (the_trainer (fit_after flat_framework fresh_trainer True 10 (Suc 0))) =
      [\<lparr>ckpt_epoch = Suc 0, ckpt_val_acc = 50,
        ckpt_history = history (the_trainer (fit_after flat_framework fresh_trainer True 10 (Suc 0)))\<rparr>]"
    "patience_counter (fit_after flat_framework fresh_trainer True 10 (Suc 0)) = 0"
    using first by (simp_all add: best0 checkpoints_fresh v)
  have best1: "best_val_loss (fit_after flat_framework fresh_trainer True 10 (Suc 0)) = Some 1"
    using second by (simp add: v)
  have e2: "checkpoints (the_trainer (fit_after flat_framework fresh_trainer True 10 (Suc (Suc 0)))) =
      checkpoints (the_trainer (fit_after flat_framework fresh_trainer True 10 (Suc 0)))"
    "patience_counter (fit_after flat_framework fresh_trainer True 10 (Suc (Suc 0))) = Suc 0"
    using second by (simp_all add: best1 e1(2) v)
  have "4 < epochs_run flat_framework fresh_trainer 30 True 10 \<longrightarrow>
      patience_counter (fit_after flat_framework fresh_trainer True 10 4) < 5"
    using first by blast
  then have stop1: "patience_counter (fit_after flat_framework fresh_trainer True 10 4) < 5"
    by (simp add: epochs_run_flat)
  have "epochs_run flat_framework fresh_trainer 30 True 10 = nat 30 \<or>
      patience_counter (fit_run flat_framework fresh_trainer 30 True 10) = 5"
    using first by blast
  then have stop2: "patience_counter (fit_run flat_framework fresh_trainer 30 True 10) = 5"
    by (simp add: epochs_run_flat)
  note stop = stop1 stop2
  show ?thesis
    using e1 best1 e2 stop epochs_run_flat by (simp add: numeral_2_eq_2)
qed

section \<open>Properties of the predictor\<close>

subsection \<open>Batches\<close>

lemma predict_batch_loop_length:
  "length (predict_batch_loop ext clock self results paths) = length results + length paths"
  by (induction paths arbitrary: results) (simp_all split: sum.splits)

lemma predict_batch_loop_prefix:
  "i < length results \<Longrightarrow> predict_batch_loop ext clock self results paths ! i = results ! i"
  by (induction paths arbitrary: results) (simp_all add: nth_append split: sum.splits)

lemma predict_batch_loop_nth:
  "i < length paths \<Longrightarrow>
   predict_batch_loop ext clock self results paths ! (length results + i) =
     (case predict_single ext (clock (length results + i)) self (paths ! i) of
        Inr result \<Rightarrow> result
      | Inl e \<Rightarrow> error_record (paths ! i) (str_of_error e))"
proof (induction paths arbitrary: results i)
  case Nil
  then show ?case by simp
next
  case (Cons path rest)
  show ?case
  proof (cases i)
    case 0
    then show ?thesis
      by (simp add: predict_batch_loop_prefix split: sum.splits)
  next
    case (Suc j)
    then have j: "j < length rest" using Cons.prems by simp
    show ?thesis
    proof (cases "predict_single ext (clock (length results)) self path")
      case (Inl e)
      then show ?thesis
        using Cons.IH [OF j, of "results @ [error_record path (str_of_error e)]"]
        unfolding Suc by (simp split: sum.splits)
    next
      case (Inr r)
      then show ?thesis
        using Cons.IH [OF j, of "results @ [r]"]
        unfolding Suc by (simp split: sum.splits)
    qed
  qed
qed

lemma predict_single_result_fields:
  "predict_single ext now self path = Inr r \<Longrightarrow> image_path r = Some path \<and> error r = None"
  by (auto simp: predict_single_def Let_def
      split: if_splits sum.splits option.splits prod.splits)

text \<open>
  C1. For every list of image paths, \<^const>\<open>predict_batch\<close> returns a list of the same
  length, and its item at each index \<open>i\<close> belongs to the image at index \<open>i\<close>. When
  \<^const>\<open>predict_single\<close> succeeds on that image the item is its result, which
  carries the image path and no \<open>error\<close> key. When it fails with the exception
  \<open>e\<close> the item is the record whose \<open>image_path\<close> is the path of that image,
  whose \<open>error\<close> is the message \<open>str(e)\<close>, and which has no other key. Every
  index has its item, whatever happened at the other indices.
\<close>

theorem predict_batch_items:
  "length (predict_batch ext clock self image_paths) = length image_paths \<and>
   (\<forall>i<length image_paths.
      predict_batch ext clock self image_paths ! i =
        (case predict_single ext (clock i) self (image_paths ! i) of
           Inr result \<Rightarrow> result
         | Inl e \<Rightarrow>
             \<lparr>image_path = Some (image_paths ! i), predicted_species = None,
              confidence = None, is_confident = None, top_predictions = None,
              pred_timestamp = None, error = Some (str_of_error e)\<rparr>) \<and>
      (\<forall>result. predict_single ext (clock i) self (image_paths ! i) = Inr result \<longrightarrow>
         image_path result = Some (image_paths ! i) \<and> error result = None))"
proof (intro conjI allI impI)
  show "length (predict_batch ext clock self image_paths) = length image_paths"
    by (simp add: predict_batch_def predict_batch_loop_length)
next
  fix i assume "i < length image_paths"
  from predict_batch_loop_nth [OF this, of ext clock self "[]"]
  show "predict_batch ext clock self image_paths ! i =
        (case predict_single ext (clock i) self (image_paths ! i) of
           Inr result \<Rightarrow> result
         | Inl e \<Rightarrow>
             \<lparr>image_path = Some (image_paths ! i), predicted_species = None,
              confidence = None, is_confident = None, top_predictions = None,
              pred_timestamp = None, error = Some (str_of_error e)\<rparr>)"
    by (simp add: predict_batch_def error_record_def split: sum.splits)
next
  fix i result
  assume "predict_single ext (clock i) self (image_paths ! i) = Inr result"
  from predict_single_result_fields [OF this]
  show "image_path result = Some (image_paths ! i)" "error result = None"
    by simp_all
qed

subsection \<open>The state machine\<close>

text \<open>
  C3. \<^const>\<open>load_model\<close> on a loaded predictor returns without changing the object;
  \<^const>\<open>predict_single\<close> on a predictor that is not loaded fails with the error
  "Model not loaded" and leaves the object as it was; a loaded predictor is still
  loaded after any call and after any sequence of calls (there is no way back);
  and the only call that takes a predictor from not loaded to loaded is a
  \<^const>\<open>load_model\<close> that succeeds.
\<close>

theorem predictor_state_machine:
  "(is_loaded self \<longrightarrow> load_model ext self = (Inr (), self)) \<and>
   (\<not> is_loaded self \<longrightarrow>
      predict_single ext now self path
        = Inl (RuntimeError ''Model not loaded. Call load_model() first.'') \<and>
      after_call ext self (Predict_single path) = self) \<and>
   (is_loaded self \<longrightarrow> is_loaded (after_call ext self c)) \<and>
   (is_loaded self \<longrightarrow> is_loaded (foldl (after_call ext) self cs)) \<and>
   (\<not> is_loaded self \<longrightarrow>
      is_loaded (after_call ext self c) \<longrightarrow>
      c = Load_model \<and> fst (load_model ext self) = Inr ())"
proof -
  have keep: "is_loaded s \<Longrightarrow> is_loaded (after_call ext s d)" for s :: "'a predictor" and d
    by (cases d) (simp_all add: load_model_def)
  have keep_all: "is_loaded s \<Longrightarrow> is_loaded (foldl (after_call ext) s ds)"
    for s :: "'a predictor" and ds
    by (induction ds arbitrary: s) (simp_all add: keep)
  have enter: "\<not> is_loaded self \<Longrightarrow> is_loaded (after_call ext self c) \<Longrightarrow>
      c = Load_model \<and> fst (load_model ext self) = Inr ()"
    by (cases c) (auto simp: load_model_def Let_def split: sum.splits)
  show ?thesis
    using keep [of self c] keep_all [of self cs] enter
    by (simp add: load_model_def predict_single_def)
qed

subsection \<open>A single prediction\<close>

lemma zoo_predictor_simps:
  "is_loaded zoo_predictor" "model zoo_predictor = Some ()"
  "species_mapping zoo_predictor = zoo_mapping" "confidence_threshold zoo_predictor = 0.5"
  "\<not> is_loaded zoo_unloaded"
  by (simp_all add: zoo_predictor_def zoo_unloaded_def new_predictor_def load_model_def
      zoo_externals_def)

lemma dom_zoo_mapping: "dom zoo_mapping = {..<3}"
  by (auto simp: zoo_mapping_def)

lemma np_max_Max:
  assumes "xs \<noteq> []"
  shows "np_max xs = Max (set xs)"
proof (cases xs)
  case Nil
  then show ?thesis using assms by simp
next
  case (Cons a list)
  then show ?thesis
    using Max.set_eq_fold [of a list] by (simp add: np_max_def)
qed

lemma takeWhile_neq_less:
  "x \<in> set xs \<Longrightarrow> length (takeWhile (\<lambda>p. p \<noteq> x) xs) < length xs"
  by (induction xs) auto

lemma takeWhile_neq_before:
  "j < length (takeWhile (\<lambda>p. p \<noteq> x) xs) \<Longrightarrow> xs ! j \<noteq> x"
proof (induction xs arbitrary: j)
  case Nil
  then show ?case by simp
next
  case (Cons a xs)
  then show ?case by (cases j) (auto split: if_splits)
qed

lemma length_softmax: "length (softmax xs) = length xs"
  by (simp add: softmax_def Let_def)

lemma torch_max_nonempty:
  assumes "ps \<noteq> []"
  defines "idx \<equiv> length (takeWhile (\<lambda>p. p \<noteq> Max (set ps)) ps)"
  shows "torch_max ps = Inr (Max (set ps), idx)"
    and "idx < length ps"
    and "ps ! idx = Max (set ps)"
    and "\<forall>j<length ps. ps ! j \<le> ps ! idx"
    and "\<forall>j<idx. ps ! j < ps ! idx"
proof -
  show "torch_max ps = Inr (Max (set ps), idx)"
    using assms(1) by (simp add: torch_max_def np_max_Max idx_def)
  have "Max (set ps) \<in> set ps" using assms(1) by simp
  then show less: "idx < length ps"
    unfolding idx_def by (rule takeWhile_neq_less)
  from nth_length_takeWhile [of "\<lambda>p. p \<noteq> Max (set ps)" ps] less
  show at: "ps ! idx = Max (set ps)" by (simp add: idx_def)
  show "\<forall>j<length ps. ps ! j \<le> ps ! idx"
    by (simp add: at)
  show "\<forall>j<idx. ps ! j < ps ! idx"
  proof (intro allI impI)
    fix j assume j: "j < idx"
    then have "ps ! j \<noteq> Max (set ps)"
      unfolding idx_def by (rule takeWhile_neq_before)
    moreover have "ps ! j \<le> Max (set ps)" using j less by simp
    ultimately show "ps ! j < ps ! idx" by (simp add: at)
  qed
qed

lemma label_top_ok:
  "\<forall>x\<in>set top_k. snd x \<in> dom sm \<Longrightarrow>
   label_top sm top_k = Inr (map (\<lambda>x. (the (sm (snd x)), fst x)) top_k)"
proof (induction top_k)
  case Nil
  show ?case by simp
next
  case (Cons x rest)
  obtain prob idx where x: "x = (prob, idx)" by (cases x)
  from Cons.prems obtain species where sp: "sm idx = Some species"
    by (auto simp: x)
  have "label_top sm rest = Inr (map (\<lambda>x. (the (sm (snd x)), fst x)) rest)"
    using Cons by simp
  then show ?case by (simp add: x sp)
qed


lemma predict_single_loaded:
  assumes "is_loaded self" and "model self = Some m" and "open_image ext path = Inr img"
    and "forward ext m img = Inr scores" and "scores \<noteq> []"
    and "dom (species_mapping self) = {..<length scores}"
  shows "predict_single ext now self path =
    Inr \<lparr>image_path = Some path,
         predicted_species = species_mapping self
           (length (takeWhile (\<lambda>p. p \<noteq> Max (set (softmax scores))) (softmax scores))),
         confidence = Some (Max (set (softmax scores))),
         is_confident = Some (confidence_threshold self \<le> Max (set (softmax scores))),
         top_predictions = Some (map (\<lambda>x. (the (species_mapping self (snd x)), fst x))
           (take (min 3 (length scores))
             (sort_key (\<lambda>(p, i). (- p, i)) (zip (softmax scores) [0..<length scores])))),
         pred_timestamp = Some now, error = None\<rparr>"
proof -
  let ?ps = "softmax scores"
  let ?idx = "length (takeWhile (\<lambda>p. p \<noteq> Max (set ?ps)) ?ps)"
  let ?top = "take (min 3 (length scores))
             (sort_key (\<lambda>(p, i). (- p, i)) (zip ?ps [0..<length scores]))"
  have ne: "?ps \<noteq> []" using assms(5) length_softmax [of scores] by auto
  have tm: "torch_max ?ps = Inr (Max (set ?ps), ?idx)"
    by (rule torch_max_nonempty(1) [OF ne])
  have "?idx < length ?ps" by (rule torch_max_nonempty(2) [OF ne])
  then have "?idx \<in> dom (species_mapping self)"
    by (simp add: assms(6) length_softmax)
  then obtain species where sp: "species_mapping self ?idx = Some species" by auto
  have card: "card (dom (species_mapping self)) = length scores"
    by (simp add: assms(6))
  have tk: "torch_topk ?ps (min 3 (length scores)) = Inr ?top"
    by (simp add: torch_topk_def length_softmax)
  have "\<forall>x\<in>set ?top. snd x \<in> dom (species_mapping self)"
  proof
    fix x assume "x \<in> set ?top"
    then have mem: "x \<in> set (zip ?ps [0..<length scores])"
      using in_set_takeD by fastforce
    obtain p i where x: "x = (p, i)" by (cases x)
    from mem have "(p, i) \<in> set (zip ?ps [0..<length scores])"
      by (simp only: x)
    then have "i \<in> set [0..<length scores]"
      by (auto dest: set_zip_rightD simp del: set_upt)
    then have "snd x \<in> set [0..<length scores]"
      by (simp add: x)
    then show "snd x \<in> dom (species_mapping self)" by (simp add: assms(6))
  qed
  then have lt: "label_top (species_mapping self) ?top =
      Inr (map (\<lambda>x. (the (species_mapping self (snd x)), fst x)) ?top)"
    by (rule label_top_ok)
  show ?thesis
    by (simp add: predict_single_def assms(1-4) Let_def tm sp card tk lt del: sort_key_simps)
qed


subsection \<open>The ranking of the classes\<close>

lemma set_zip_upt:
  "set (zip ps [0..<length ps]) = (\<lambda>i. (ps ! i, i)) ` {..<length ps}"
  by (auto simp: set_zip image_iff)

lemma ranked_classes:
  fixes ps :: "real list"
  defines "ranked \<equiv> sort_key (\<lambda>(p, i). (- p, i)) (zip ps [0..<length ps])"
  shows "set ranked = (\<lambda>i. (ps ! i, i)) ` {..<length ps}"
    and "distinct (map snd ranked)"
    and "sorted_wrt (\<lambda>a b. ranks_before ps (snd a) (snd b)) ranked"
proof -
  let ?key = "\<lambda>(p :: real, i :: nat). (- p, i)"
  let ?zs = "zip ps [0..<length ps]"
  show set_ranked: "set ranked = (\<lambda>i. (ps ! i, i)) ` {..<length ps}"
    by (simp add: ranked_def set_zip_upt del: sort_key_simps)
  have "distinct (map snd ?zs)" by simp
  then have dz: "distinct ?zs" by (simp only: distinct_map)
  then have dr: "distinct ranked" by (simp add: ranked_def del: sort_key_simps)
  have inj_snd: "inj_on snd (set ranked)"
    by (auto simp: set_ranked inj_on_def)
  show "distinct (map snd ranked)"
    using dr inj_snd by (simp add: distinct_map)
  have inj_key: "inj_on ?key (set ranked)"
    by (auto simp: inj_on_def)
  have "sorted (map ?key ranked)"
    unfolding ranked_def by (rule sorted_sort_key)
  moreover have "distinct (map ?key ranked)"
    using dr inj_key by (simp add: distinct_map)
  ultimately have "sorted_wrt (<) (map ?key ranked)"
    by (simp add: strict_sorted_iff)
  then have strict: "sorted_wrt (\<lambda>a b. ?key a < ?key b) ranked"
    by (simp add: sorted_wrt_map)
  show "sorted_wrt (\<lambda>a b. ranks_before ps (snd a) (snd b)) ranked"
  proof (rule sorted_wrt_mono_rel [OF _ strict])
    fix a b assume "a \<in> set ranked" "b \<in> set ranked" "?key a < ?key b"
    then show "ranks_before ps (snd a) (snd b)"
      by (auto simp: set_ranked ranks_before_def)
  qed
qed

lemma top_k_classes:
  fixes ps :: "real list"
  assumes "k \<le> length ps"
  defines "idxs \<equiv> map snd (take k (sort_key (\<lambda>(p, i). (- p, i)) (zip ps [0..<length ps])))"
  shows "length idxs = k"
    and "distinct idxs"
    and "set idxs \<subseteq> {..<length ps}"
    and "map fst (take k (sort_key (\<lambda>(p, i). (- p, i)) (zip ps [0..<length ps])))
          = map (\<lambda>i. ps ! i) idxs"
    and "sorted_wrt (ranks_before ps) idxs"
    and "\<forall>i\<in>set idxs. \<forall>j<length ps. j \<notin> set idxs \<longrightarrow> ranks_before ps i j"
proof -
  define ranked where "ranked = sort_key (\<lambda>(p, i). (- p, i)) (zip ps [0..<length ps])"
  note r = ranked_classes [of ps, folded ranked_def]
  have idxs: "idxs = map snd (take k ranked)"
    by (simp add: idxs_def ranked_def)
  have len: "length ranked = length ps"
    by (simp add: ranked_def del: sort_key_simps)
  show "length idxs = k"
    using assms(1) by (simp add: idxs len)
  have "distinct (map snd (take k ranked @ drop k ranked))"
    using r(2) by simp
  then have split: "distinct (map snd (take k ranked))"
    "set (map snd (take k ranked)) \<inter> set (map snd (drop k ranked)) = {}"
    unfolding map_append distinct_append by blast+
  show "distinct idxs"
    using split(1) by (simp add: idxs)
  have sub: "set (take k ranked) \<subseteq> (\<lambda>i. (ps ! i, i)) ` {..<length ps}"
    using set_take_subset [of k ranked] r(1) by simp
  show "set idxs \<subseteq> {..<length ps}"
    using sub by (auto simp: idxs)
  show "map fst (take k (sort_key (\<lambda>(p, i). (- p, i)) (zip ps [0..<length ps])))
          = map (\<lambda>i. ps ! i) idxs"
    using sub by (auto simp: idxs ranked_def [symmetric] simp del: sort_key_simps)
  have "sorted_wrt (\<lambda>a b. ranks_before ps (snd a) (snd b)) (take k ranked @ drop k ranked)"
    using r(3) by simp
  then have sw: "sorted_wrt (\<lambda>a b. ranks_before ps (snd a) (snd b)) (take k ranked)"
    "\<forall>a\<in>set (take k ranked). \<forall>b\<in>set (drop k ranked). ranks_before ps (snd a) (snd b)"
    unfolding sorted_wrt_append by blast+
  show "sorted_wrt (ranks_before ps) idxs"
    using sw(1) by (simp add: idxs sorted_wrt_map)
  show "\<forall>i\<in>set idxs. \<forall>j<length ps. j \<notin> set idxs \<longrightarrow> ranks_before ps i j"
  proof (intro ballI allI impI)
    fix i j assume i: "i \<in> set idxs" and j: "j < length ps" "j \<notin> set idxs"
    from i obtain a where a: "a \<in> set (take k ranked)" "snd a = i"
      by (auto simp: idxs)
    have "(ps ! j, j) \<in> set (take k ranked @ drop k ranked)"
      using j(1) r(1) by simp
    moreover have "(ps ! j, j) \<notin> set (take k ranked)"
      using j(2) by (force simp: idxs)
    ultimately have "(ps ! j, j) \<in> set (drop k ranked)"
      by (simp only: set_append Un_iff) simp
    then show "ranks_before ps i j"
      using sw(2) a by force
  qed
qed


text \<open>
  C4. On a loaded predictor whose model returns a non-empty vector of \<open>N\<close> scores
  for the image, with labels for exactly the indices below \<open>N\<close>,
  \<^const>\<open>predict_single\<close> returns a result. Its label is the label of the arg-max
  \<open>best\<close> of the softmax probabilities (the first index that holds the largest
  probability), its confidence is that probability, and its confidence flag says
  whether the confidence reaches the threshold of the predictor. Its top
  predictions are the (label, probability) pairs of \<open>min 3 N\<close> distinct indices,
  listed in the order \<^const>\<open>ranks_before\<close> (descending probability, ties by the
  lower index first), each of which ranks before every index left out.
\<close>

theorem predict_single_ranking:
  assumes "is_loaded self" and "model self = Some m" and "open_image ext path = Inr img"
    and "forward ext m img = Inr scores" and "scores \<noteq> []"
    and "dom (species_mapping self) = {..<length scores}"
  shows "\<exists>r best idxs.
      predict_single ext now self path = Inr r \<and>
      best < length scores \<and>
      (\<forall>j<length scores. softmax scores ! j \<le> softmax scores ! best) \<and>
      (\<forall>j<best. softmax scores ! j < softmax scores ! best) \<and>
      predicted_species r = species_mapping self best \<and>
      confidence r = Some (softmax scores ! best) \<and>
      is_confident r = Some (softmax scores ! best \<ge> confidence_threshold self) \<and>
      length idxs = min 3 (length scores) \<and> distinct idxs \<and>
      set idxs \<subseteq> {..<length scores} \<and>
      top_predictions r =
        Some (map (\<lambda>i. (the (species_mapping self i), softmax scores ! i)) idxs) \<and>
      sorted_wrt (ranks_before (softmax scores)) idxs \<and>
      (\<forall>i\<in>set idxs. \<forall>j<length scores. j \<notin> set idxs \<longrightarrow> ranks_before (softmax scores) i j)"
proof -
  let ?ps = "softmax scores"
  let ?best = "length (takeWhile (\<lambda>p. p \<noteq> Max (set ?ps)) ?ps)"
  let ?top = "take (min 3 (length scores))
             (sort_key (\<lambda>(p, i). (- p, i)) (zip ?ps [0..<length ?ps]))"
  let ?idxs = "map snd ?top"
  define r where "r =
    \<lparr>image_path = Some path,
     predicted_species = species_mapping self ?best,
     confidence = Some (Max (set ?ps)),
     is_confident = Some (confidence_threshold self \<le> Max (set ?ps)),
     top_predictions = Some (map (\<lambda>x. (the (species_mapping self (snd x)), fst x))
       (take (min 3 (length scores))
         (sort_key (\<lambda>(p, i). (- p, i)) (zip ?ps [0..<length scores])))),
     pred_timestamp = Some now, error = None\<rparr>"
  have len: "length ?ps = length scores" by (rule length_softmax)
  have ne: "?ps \<noteq> []" using assms(5) len by auto
  note best = torch_max_nonempty(2-5) [OF ne]
  have k: "min 3 (length scores) \<le> length ?ps" by (simp add: len)
  note top = top_k_classes [OF k]
  have "map fst ?top = map (\<lambda>i. ?ps ! i) ?idxs" by (rule top(4))
  then have "\<forall>x\<in>set ?top. fst x = ?ps ! snd x"
    by (simp only: map_map map_eq_conv o_def)
  then have items: "map (\<lambda>x. (the (species_mapping self (snd x)), fst x)) ?top =
      map (\<lambda>i. (the (species_mapping self i), ?ps ! i)) ?idxs"
    by (simp del: sort_key_simps)
  have 1: "predict_single ext now self path = Inr r"
    unfolding r_def by (rule predict_single_loaded [OF assms])
  have 2: "?best < length scores" using best(1) by (simp only: len)
  have 3: "\<forall>j<length scores. ?ps ! j \<le> ?ps ! ?best" using best(3) by (simp only: len)
  have 4: "\<forall>j<?best. ?ps ! j < ?ps ! ?best" by (rule best(4))
  have 5: "predicted_species r = species_mapping self ?best" by (simp add: r_def)
  have 6: "confidence r = Some (?ps ! ?best)" by (simp add: r_def best(2))
  have 7: "is_confident r = Some (?ps ! ?best \<ge> confidence_threshold self)"
    by (simp add: r_def best(2))
  have 8: "length ?idxs = min 3 (length scores)" by (rule top(1))
  have 9: "distinct ?idxs" by (rule top(2))
  have 10: "set ?idxs \<subseteq> {..<length scores}" using top(3) by (simp only: len)
  have 11: "top_predictions r =
      Some (map (\<lambda>i. (the (species_mapping self i), ?ps ! i)) ?idxs)"
    using items by (simp add: r_def len del: sort_key_simps)
  have 12: "sorted_wrt (ranks_before ?ps) ?idxs" by (rule top(5))
  have 13: "\<forall>i\<in>set ?idxs. \<forall>j<length scores. j \<notin> set ?idxs \<longrightarrow> ranks_before ?ps i j"
    using top(6) by (simp only: len)
  show ?thesis
    using 1 2 3 4 5 6 7 8 9 10 11 12 13 by blast
qed

subsection \<open>The concrete predictor\<close>

lemma softmax_nth:
  assumes "i < length xs"
  shows "softmax xs ! i =
    exp (xs ! i - np_max xs) / (\<Sum>x\<leftarrow>xs. exp (x - np_max xs))"
  using assms by (simp add: softmax_def Let_def o_def)

lemma softmax_denominator_pos:
  assumes "xs \<noteq> []"
  shows "0 < (\<Sum>x\<leftarrow>xs. exp (x - c :: real))"
proof (cases xs)
  case Nil
  then show ?thesis using assms by simp
next
  case (Cons a list)
  have "0 \<le> (\<Sum>x\<leftarrow>list. exp (x - c))"
    by (rule sum_list_nonneg) auto
  moreover have "0 < exp (a - c)" by simp
  ultimately show ?thesis by (simp add: Cons add_pos_nonneg)
qed

lemma softmax_less:
  assumes "i < length xs" and "j < length xs" and "xs ! i < xs ! j"
  shows "softmax xs ! i < softmax xs ! j"
proof -
  have "xs \<noteq> []" using assms(1) by auto
  then have "0 < (\<Sum>x\<leftarrow>xs. exp (x - np_max xs))"
    by (rule softmax_denominator_pos)
  moreover have "exp (xs ! i - np_max xs) < exp (xs ! j - np_max xs)"
    using assms(3) by simp
  ultimately show ?thesis
    by (simp add: softmax_nth assms(1,2) divide_strict_right_mono)
qed

lemma zoo_scores_order:
  "softmax [5, 1, 0.1] ! 1 < softmax [5, 1, 0.1] ! 0"
  "softmax [5, 1, 0.1] ! 2 < softmax [5, 1, 0.1] ! 1"
  "softmax [5, 1, 0.1] ! 2 < softmax [5, 1, 0.1] ! 0"
  by (rule softmax_less; simp)+

lemma exp_minus_le: "0 \<le> x \<Longrightarrow> exp (- x) \<le> 1 / (1 + x :: real)"
proof -
  assume x: "0 \<le> x"
  have "1 + x \<le> exp x" by (rule exp_ge_add_one_self)
  then have "inverse (exp x) \<le> inverse (1 + x)"
    using x by (intro le_imp_inverse_le) auto
  then show ?thesis by (simp add: exp_minus inverse_eq_divide)
qed

lemma zoo_confident: "(0.5 :: real) \<le> softmax [5, 1, 0.1] ! 0"
proof -
  define d :: real where "d = 1 + exp (- 4) + exp (- (49 / 10))"
  have a: "exp (- 4 :: real) \<le> 1 / 5" using exp_minus_le [of 4] by simp
  have b: "exp (- (49 / 10) :: real) \<le> 10 / 59" using exp_minus_le [of "49 / 10"] by simp
  have m: "np_max [5, 1, 0.1] = (5 :: real)" by (simp add: np_max_def)
  have eq: "softmax [5, 1, 0.1] ! 0 = 1 / d"
    by (simp add: softmax_nth m d_def)
  have le: "d \<le> 2" using a b by (simp add: d_def)
  have pos: "0 < d" by (simp add: d_def add_pos_pos)
  have "1 / 2 \<le> 1 / d"
    using le pos by (simp add: field_simps)
  then show ?thesis by (simp add: eq)
qed


lemma zoo_ranks_before:
  assumes "i < 3" and "j < 3" and "ranks_before (softmax [5, 1, 0.1]) i j"
  shows "i < j"
proof -
  have i: "i = 0 \<or> i = 1 \<or> i = 2" using assms(1) by arith
  have j: "j = 0 \<or> j = 1 \<or> j = 2" using assms(2) by arith
  show ?thesis
    using i j assms(3) zoo_scores_order
    by (auto simp: ranks_before_def)
qed

lemma zoo_loaded_facts:
  "open_image zoo_externals ''lion.jpg'' = Inr ''lion.jpg''"
  "forward zoo_externals () ''lion.jpg'' = Inr [5, 1, 0.1]"
  "dom (species_mapping zoo_predictor) = {..<length [5, 1, 0.1 :: real]}"
  by (simp_all add: zoo_externals_def zoo_predictor_simps dom_zoo_mapping)

text \<open>Witness for C4: the scores \<open>[5, 1, 0.1]\<close> over Lion, Elephant and Zebra with
  the threshold \<open>0.5\<close>.\<close>

theorem predict_single_ranking_witness:
  "\<exists>r. predict_single zoo_externals ''2026-11-04'' zoo_predictor ''lion.jpg'' = Inr r \<and>
       predicted_species r = Some ''Lion'' \<and>
       is_confident r = Some True \<and>
       map fst (the (top_predictions r)) = [''Lion'', ''Elephant'', ''Zebra'']"
proof -
  let ?ps = "softmax [5, 1, 0.1 :: real]"
  have ne: "[5, 1, 0.1 :: real] \<noteq> []" by simp
  from predict_single_ranking [OF zoo_predictor_simps(1,2) zoo_loaded_facts(1,2) ne
      zoo_loaded_facts(3), of "''2026-11-04''"]
  obtain r best idxs where r:
    "predict_single zoo_externals ''2026-11-04'' zoo_predictor ''lion.jpg'' = Inr r"
    "best < 3"
    "\<forall>j<3. ?ps ! j \<le> ?ps ! best"
    "predicted_species r = species_mapping zoo_predictor best"
    "is_confident r = Some (?ps ! best \<ge> confidence_threshold zoo_predictor)"
    "length idxs = 3" "set idxs \<subseteq> {..<3}"
    "top_predictions r = Some (map (\<lambda>i. (the (species_mapping zoo_predictor i), ?ps ! i)) idxs)"
    "sorted_wrt (ranks_before ?ps) idxs"
    by (auto simp: numeral_3_eq_3)
  have best: "best = 0"
  proof -
    have "best = 0 \<or> best = 1 \<or> best = 2" using r(2) by arith
    moreover have "?ps ! 0 \<le> ?ps ! best" using r(3) by simp
    ultimately show ?thesis using zoo_scores_order by auto
  qed
  obtain a b c where abc: "idxs = [a, b, c]"
    using r(6) by (auto simp: length_Suc_conv eval_nat_numeral)
  have bounds: "a < 3" "b < 3" "c < 3" using r(7) by (simp_all add: abc)
  have "ranks_before ?ps a b" "ranks_before ?ps b c" using r(9) by (simp_all add: abc)
  then have "a < b" "b < c"
    using bounds by (auto intro: zoo_ranks_before)
  then have idxs: "idxs = [0, 1, 2]" using bounds by (simp add: abc)
  have lion: "predicted_species r = Some ''Lion''"
    by (simp add: r(4) best zoo_predictor_simps zoo_mapping_def)
  have sure: "is_confident r = Some True"
    using zoo_confident by (simp add: r(5) best zoo_predictor_simps)
  have top3: "map fst (the (top_predictions r)) = [''Lion'', ''Elephant'', ''Zebra'']"
    by (simp add: r(8) idxs zoo_predictor_simps zoo_mapping_def)
  show ?thesis
    by (rule exI [of _ r]) (simp only: r(1) lion sure top3 simp_thms)
qed

lemma zoo_prediction:
  assumes "path \<noteq> ''broken.jpg''"
  shows "\<exists>r. predict_single zoo_externals now zoo_predictor path = Inr r \<and>
             image_path r = Some path \<and> error r = None"
proof -
  have a: "open_image zoo_externals path = Inr path"
    using assms by (simp add: zoo_externals_def)
  have b: "forward zoo_externals () path = Inr [5, 1, 0.1]"
    by (simp add: zoo_externals_def)
  have c: "[5, 1, 0.1 :: real] \<noteq> []" by simp
  show ?thesis
    by (simp add: predict_single_loaded [OF zoo_predictor_simps(1,2) a b c zoo_loaded_facts(3)]
        del: sort_key_simps)
qed

lemma zoo_broken:
  "predict_single zoo_externals now zoo_predictor ''broken.jpg''
     = Inl (ExternalError ''cannot identify image file'')"
  by (simp add: predict_single_def zoo_predictor_simps zoo_externals_def)

text \<open>Witness for C1: three images of which the second cannot be read.\<close>

theorem predict_batch_items_witness:
  "length (predict_batch zoo_externals (\<lambda>i. ''now'') zoo_predictor
      [''lion.jpg'', ''broken.jpg'', ''zebra.jpg'']) = 3 \<and>
   image_path (predict_batch zoo_externals (\<lambda>i. ''now'') zoo_predictor
      [''lion.jpg'', ''broken.jpg'', ''zebra.jpg''] ! 0) = Some ''lion.jpg'' \<and>
   error (predict_batch zoo_externals (\<lambda>i. ''now'') zoo_predictor
      [''lion.jpg'', ''broken.jpg'', ''zebra.jpg''] ! 0) = None \<and>
   image_path (predict_batch zoo_externals (\<lambda>i. ''now'') zoo_predictor
      [''lion.jpg'', ''broken.jpg'', ''zebra.jpg''] ! 1) = Some ''broken.jpg'' \<and>
   error (predict_batch zoo_externals (\<lambda>i. ''now'') zoo_predictor
      [''lion.jpg'', ''broken.jpg'', ''zebra.jpg''] ! 1) = Some ''cannot identify image file'' \<and>
   predicted_species (predict_batch zoo_externals (\<lambda>i. ''now'') zoo_predictor
      [''lion.jpg'', ''broken.jpg'', ''zebra.jpg''] ! 1) = None \<and>
   image_path (predict_batch zoo_externals (\<lambda>i. ''now'') zoo_predictor
      [''lion.jpg'', ''broken.jpg'', ''zebra.jpg''] ! 2) = Some ''zebra.jpg'' \<and>
   error (predict_batch zoo_externals (\<lambda>i. ''now'') zoo_predictor
      [''lion.jpg'', ''broken.jpg'', ''zebra.jpg''] ! 2) = None"
proof -
  let ?paths = "[''lion.jpg'', ''broken.jpg'', ''zebra.jpg'']"
  let ?res = "predict_batch zoo_externals (\<lambda>i. ''now'') zoo_predictor ?paths"
  note items = predict_batch_items [of zoo_externals "\<lambda>i. ''now''" zoo_predictor ?paths]
  obtain r0 where r0: "predict_single zoo_externals ''now'' zoo_predictor ''lion.jpg'' = Inr r0"
    using zoo_prediction [of "''lion.jpg''" "''now''"] by auto
  obtain r2 where r2: "predict_single zoo_externals ''now'' zoo_predictor ''zebra.jpg'' = Inr r2"
    using zoo_prediction [of "''zebra.jpg''" "''now''"] by auto
  have len: "length ?res = 3" using items by simp
  have at: "?res ! i =
        (case predict_single zoo_externals ''now'' zoo_predictor (?paths ! i) of
           Inr result \<Rightarrow> result
         | Inl e \<Rightarrow>
             \<lparr>image_path = Some (?paths ! i), predicted_species = None,
              confidence = None, is_confident = None, top_predictions = None,
              pred_timestamp = None, error = Some (str_of_error e)\<rparr>)"
    and fields: "predict_single zoo_externals ''now'' zoo_predictor (?paths ! i) = Inr r \<Longrightarrow>
        image_path r = Some (?paths ! i) \<and> error r = None"
    if "i < 3" for i r
    using items that by (simp_all add: numeral_3_eq_3)
  have i0: "?res ! 0 = r0" "image_path r0 = Some ''lion.jpg''" "error r0 = None"
    using at [of 0] fields [of 0 r0] r0 by simp_all
  have i1: "?res ! 1 =
      \<lparr>image_path = Some ''broken.jpg'', predicted_species = None,
       confidence = None, is_confident = None, top_predictions = None,
       pred_timestamp = None, error = Some ''cannot identify image file''\<rparr>"
    using at [of 1] zoo_broken [of "''now''"] by simp
  have i2: "?res ! 2 = r2" "image_path r2 = Some ''zebra.jpg''" "error r2 = None"
    using at [of 2] fields [of 2 r2] r2 by simp_all
  show ?thesis
    by (simp only: len i0 i1 i2 prediction.simps simp_thms)
qed

text \<open>Witness for C3: the concrete predictor before and after loading.\<close>

theorem predictor_state_machine_witness:
  "load_model zoo_externals zoo_predictor = (Inr (), zoo_predictor) \<and>
   predict_single zoo_externals ''now'' zoo_unloaded ''lion.jpg''
     = Inl (RuntimeError ''Model not loaded. Call load_model() first.'') \<and>
   after_call zoo_externals zoo_unloaded (Predict_single ''lion.jpg'') = zoo_unloaded \<and>
   is_loaded (after_call zoo_externals zoo_unloaded Load_model) \<and>
   is_loaded (foldl (after_call zoo_externals) zoo_predictor
     [Predict_single ''lion.jpg'', Load_model, Predict_batch [''broken.jpg'']])"
proof -
  have "is_loaded (after_call zoo_externals zoo_unloaded Load_model)"
    using zoo_predictor_simps(1) by (simp add: zoo_predictor_def)
  then show ?thesis
    using predictor_state_machine [of zoo_predictor zoo_externals "''now''" "''lion.jpg''"
        Load_model "[Predict_single ''lion.jpg'', Load_model, Predict_batch [''broken.jpg'']]"]
      predictor_state_machine [of zoo_unloaded zoo_externals "''now''" "''lion.jpg''"
        Load_model "[]"]
      zoo_predictor_simps(1,5)
    by simp
qed

subsection \<open>Statistics of a batch\<close>

lemma confident_of_ok:
  "\<forall>p\<in>set ps. is_confident p \<noteq> None \<Longrightarrow>
   confident_of ps = Inr (filter (\<lambda>p. is_confident p = Some True) ps)"
  by (induction ps) auto

lemma count_up_fold:
  "fold (\<lambda>l m. count_up m l) ls m0 l =
     (if l \<in> set ls \<or> m0 l \<noteq> None
      then Some (length (filter (\<lambda>x. x = l) ls) + (case m0 l of None \<Rightarrow> 0 | Some c \<Rightarrow> c))
      else None)"
  by (induction ls arbitrary: m0) (auto simp: count_up_def split: option.splits)

lemma tally_ok:
  "\<forall>p\<in>set ps. predicted_species p \<noteq> None \<and> confidence p \<noteq> None \<Longrightarrow>
   tally counts tc ps =
     Inr (fold (\<lambda>l m. count_up m l) (map (\<lambda>p. the (predicted_species p)) ps) counts,
          tc + (\<Sum>p\<leftarrow>ps. the (confidence p)))"
  by (induction ps arbitrary: counts tc) (auto simp: add.assoc)

lemma filter_label_length:
  "\<forall>p\<in>set ps. predicted_species p \<noteq> None \<Longrightarrow>
   length (filter (\<lambda>x. x = l) (map (\<lambda>p. the (predicted_species p)) ps))
     = length (filter (\<lambda>p. predicted_species p = Some l) ps)"
  by (induction ps) auto

lemma histogram:
  assumes "\<forall>p\<in>set ps. predicted_species p \<noteq> None"
  shows "fold (\<lambda>l m. count_up m l) (map (\<lambda>p. the (predicted_species p)) ps) Map.empty l =
      (let c = length (filter (\<lambda>p. predicted_species p = Some l) ps)
       in if c = 0 then None else Some c)"
proof -
  define ls where "ls = map (\<lambda>p. the (predicted_species p)) ps"
  have n: "length (filter (\<lambda>x. x = l) ls) = length (filter (\<lambda>p. predicted_species p = Some l) ps)"
    unfolding ls_def by (rule filter_label_length [OF assms])
  have "l \<in> set ls \<longleftrightarrow> filter (\<lambda>x. x = l) ls \<noteq> []"
    by (auto simp: filter_empty_conv)
  then have m: "l \<in> set ls \<longleftrightarrow> length (filter (\<lambda>p. predicted_species p = Some l) ps) \<noteq> 0"
    using n by (metis length_0_conv)
  have "fold (\<lambda>l m. count_up m l) ls Map.empty l =
      (if l \<in> set ls then Some (length (filter (\<lambda>x. x = l) ls)) else None)"
    by (simp add: count_up_fold)
  then show ?thesis
    unfolding ls_def [symmetric] n m Let_def by auto
qed

lemma length_filter_complement:
  "int (length xs) - int (length (filter P xs)) = int (length (filter (\<lambda>x. \<not> P x) xs))"
  using sum_length_filter_compl [of P xs] by simp

lemma predict_single_well_formed:
  "predict_single ext now self path = Inr r \<Longrightarrow> well_formed r"
  by (auto simp: predict_single_def Let_def well_formed_def
      split: if_splits sum.splits option.splits prod.splits)

lemma predict_batch_loop_well_formed:
  "\<forall>p\<in>set results. well_formed p \<Longrightarrow>
   \<forall>p\<in>set (predict_batch_loop ext clock self results paths). well_formed p"
proof (induction paths arbitrary: results)
  case Nil
  then show ?case by simp
next
  case (Cons path rest)
  show ?case
  proof (cases "predict_single ext (clock (length results)) self path")
    case (Inl e)
    have "\<forall>p\<in>set (results @ [error_record path (str_of_error e)]). well_formed p"
      using Cons.prems by (simp add: well_formed_def error_record_def)
    from Cons.IH [OF this] show ?thesis by (simp add: Inl)
  next
    case (Inr r)
    have "\<forall>p\<in>set (results @ [r]). well_formed p"
      using Cons.prems predict_single_well_formed [OF Inr] by simp
    from Cons.IH [OF this] show ?thesis by (simp add: Inr)
  qed
qed

lemma get_prediction_statistics_ok:
  assumes "\<forall>p\<in>set predictions. well_formed p"
  defines "valid \<equiv> filter (\<lambda>p. error p = None) predictions"
  shows "get_prediction_statistics predictions =
    Inr \<lparr>total_predictions = length valid,
         confident_predictions = length (filter (\<lambda>p. is_confident p = Some True) valid),
         confidence_rate =
           (if valid \<noteq> []
            then real (length (filter (\<lambda>p. is_confident p = Some True) valid)) / real (length valid)
            else 0),
         average_confidence =
           (if valid \<noteq> [] then (\<Sum>p\<leftarrow>valid. the (confidence p)) / real (length valid) else 0),
         species_distribution =
           fold (\<lambda>l m. count_up m l) (map (\<lambda>p. the (predicted_species p)) valid) Map.empty,
         errors = int (length predictions) - int (length valid)\<rparr>"
proof -
  have wf: "\<forall>p\<in>set valid. predicted_species p \<noteq> None \<and> confidence p \<noteq> None \<and> is_confident p \<noteq> None"
    using assms(1) by (auto simp: valid_def well_formed_def)
  then have c: "confident_of valid = Inr (filter (\<lambda>p. is_confident p = Some True) valid)"
    by (intro confident_of_ok) simp
  have t: "tally Map.empty 0 valid =
     Inr (fold (\<lambda>l m. count_up m l) (map (\<lambda>p. the (predicted_species p)) valid) Map.empty,
          0 + (\<Sum>p\<leftarrow>valid. the (confidence p)))"
    using wf by (intro tally_ok) simp
  show ?thesis
    by (simp add: get_prediction_statistics_def valid_def [symmetric] Let_def c t)
qed


text \<open>
  C5. \<^const>\<open>get_prediction_statistics\<close> returns statistics, and no error, on the
  empty list (all zero, an empty histogram), on every list that
  \<^const>\<open>predict_batch\<close> returns, and on every list of well-formed records. Over
  the records without an error it returns their number, the number of confident
  ones, the confidence rate (confident by total) and the mean confidence, both
  \<open>0\<close> when there is no such record, and the histogram of their labels; the
  error count is the length of the list minus the number of records without an
  error, that is, the number of error records.
\<close>

theorem prediction_statistics_spec:
  "get_prediction_statistics [] =
     Inr \<lparr>total_predictions = 0, confident_predictions = 0, confidence_rate = 0,
          average_confidence = 0, species_distribution = Map.empty, errors = 0\<rparr> \<and>
   (\<exists>s. get_prediction_statistics (predict_batch ext clock self image_paths) = Inr s) \<and>
   ((\<forall>p\<in>set predictions. well_formed p) \<longrightarrow>
      (\<exists>s. get_prediction_statistics predictions = Inr s \<and>
        (let valid = filter (\<lambda>p. error p = None) predictions;
             n = length valid;
             k = length (filter (\<lambda>p. is_confident p = Some True) valid)
         in total_predictions s = n \<and>
            confident_predictions s = k \<and>
            confidence_rate s = (if n = 0 then 0 else real k / real n) \<and>
            average_confidence s =
              (if n = 0 then 0 else (\<Sum>p\<leftarrow>valid. the (confidence p)) / real n) \<and>
            (\<forall>l. species_distribution s l =
               (let c = length (filter (\<lambda>p. predicted_species p = Some l) valid)
                in if c = 0 then None else Some c)) \<and>
            errors s = int (length predictions) - int n \<and>
            errors s = int (length (filter (\<lambda>p. error p \<noteq> None) predictions)))))"
proof (intro conjI impI)
  show "get_prediction_statistics [] =
     Inr \<lparr>total_predictions = 0, confident_predictions = 0, confidence_rate = 0,
          average_confidence = 0, species_distribution = Map.empty, errors = 0\<rparr>"
    by (simp add: get_prediction_statistics_def)
next
  have "\<forall>p\<in>set (predict_batch ext clock self image_paths). well_formed p"
    unfolding predict_batch_def by (rule predict_batch_loop_well_formed) simp
  from get_prediction_statistics_ok [OF this]
  show "\<exists>s. get_prediction_statistics (predict_batch ext clock self image_paths) = Inr s"
    by blast
next
  assume wf: "\<forall>p\<in>set predictions. well_formed p"
  define valid where "valid = filter (\<lambda>p. error p = None) predictions"
  have sp: "\<forall>p\<in>set valid. predicted_species p \<noteq> None"
    using wf by (auto simp: valid_def well_formed_def)
  have hist: "fold (\<lambda>l m. count_up m l) (map (\<lambda>p. the (predicted_species p)) valid) Map.empty l =
      (let c = length (filter (\<lambda>p. predicted_species p = Some l) valid)
       in if c = 0 then None else Some c)" for l
    by (rule histogram [OF sp])
  have errs: "int (length predictions) - int (length valid)
      = int (length (filter (\<lambda>p. error p \<noteq> None) predictions))"
    unfolding valid_def by (rule length_filter_complement)
  show "\<exists>s. get_prediction_statistics predictions = Inr s \<and>
        (let valid = filter (\<lambda>p. error p = None) predictions;
             n = length valid;
             k = length (filter (\<lambda>p. is_confident p = Some True) valid)
         in total_predictions s = n \<and>
            confident_predictions s = k \<and>
            confidence_rate s = (if n = 0 then 0 else real k / real n) \<and>
            average_confidence s =
              (if n = 0 then 0 else (\<Sum>p\<leftarrow>valid. the (confidence p)) / real n) \<and>
            (\<forall>l. species_distribution s l =
               (let c = length (filter (\<lambda>p. predicted_species p = Some l) valid)
                in if c = 0 then None else Some c)) \<and>
            errors s = int (length predictions) - int n \<and>
            errors s = int (length (filter (\<lambda>p. error p \<noteq> None) predictions)))"
    apply (subst get_prediction_statistics_ok [OF wf])
    apply (rule exI, rule conjI, rule refl)
    unfolding valid_def [symmetric] Let_def
    using hist errs by simp
qed

lemma sample_results_well_formed: "\<forall>p\<in>set sample_results. well_formed p"
  by (simp add: sample_results_def sample_prediction_def error_record_def well_formed_def)

text \<open>Witness for C5: two predictions, one of them confident, and one error
  record.\<close>

theorem prediction_statistics_spec_witness:
  "\<exists>s. get_prediction_statistics sample_results = Inr s \<and>
       total_predictions s = 2 \<and> confident_predictions s = 1 \<and>
       confidence_rate s = 1 / 2 \<and> average_confidence s = 0.6 \<and>
       species_distribution s ''Lion'' = Some 1 \<and>
       species_distribution s ''Tiger'' = None \<and>
       errors s = 1"
proof -
  from prediction_statistics_spec [of undefined undefined undefined "[]" sample_results]
    sample_results_well_formed
  obtain s where s: "get_prediction_statistics sample_results = Inr s"
    and rest: "let valid = filter (\<lambda>p. error p = None) sample_results;
             n = length valid;
             k = length (filter (\<lambda>p. is_confident p = Some True) valid)
         in total_predictions s = n \<and>
            confident_predictions s = k \<and>
            confidence_rate s = (if n = 0 then 0 else real k / real n) \<and>
            average_confidence s =
              (if n = 0 then 0 else (\<Sum>p\<leftarrow>valid. the (confidence p)) / real n) \<and>
            (\<forall>l. species_distribution s l =
               (let c = length (filter (\<lambda>p. predicted_species p = Some l) valid)
                in if c = 0 then None else Some c)) \<and>
            errors s = int (length sample_results) - int n \<and>
            errors s = int (length (filter (\<lambda>p. error p \<noteq> None) sample_results))"
    by blast
  have valid: "filter (\<lambda>p. error p = None) sample_results =
      [sample_prediction ''a.jpg'' ''Lion'' 0.9 True, sample_prediction ''c.jpg'' ''Zebra'' 0.3 False]"
    by (simp add: sample_results_def sample_prediction_def error_record_def)
  have facts: "total_predictions s = 2" "confident_predictions s = 1"
    "confidence_rate s = 1 / 2" "average_confidence s = 0.6"
    "species_distribution s ''Lion'' = Some 1" "species_distribution s ''Tiger'' = None"
    "errors s = 1"
    using rest unfolding valid Let_def
    by (simp_all add: sample_prediction_def sample_results_def)
  show ?thesis
    by (rule exI [of _ s]) (simp only: s facts simp_thms)
qed

subsection \<open>Enumerating a directory\<close>

lemma upper_case_skipped: "directory_image_paths ''photos'' [File ''a.JPG''] True = []"
  by code_simp

text \<open>
  C7 (the code at the failing input). In a directory with the files \<open>a.JPG\<close> and
  \<open>b.jpg\<close> and a subdirectory with \<open>c.PNG\<close>, the recursive enumeration matches
  the patterns \<open>*.jpg\<close>, \<open>*.jpeg\<close>, \<open>*.png\<close>, \<open>*.bmp\<close> with the letter case as
  it is and finds \<open>b.jpg\<close> only, while the enumeration of the top level lowers
  the suffix first and finds \<open>a.JPG\<close> too. A directory that holds nothing but
  \<open>a.JPG\<close> gives an empty list of predictions in the recursive mode.
\<close>

theorem predict_directory_letter_case:
  "directory_image_paths ''photos'' [File ''a.JPG'', File ''b.jpg'', Dir ''sub'' [File ''c.PNG'']] True
     = [''photos/b.jpg''] \<and>
   directory_image_paths ''photos'' [File ''a.JPG'', File ''b.jpg'', Dir ''sub'' [File ''c.PNG'']] False
     = [''photos/a.JPG'', ''photos/b.jpg''] \<and>
   predict_directory ext clock self ''photos'' [File ''a.JPG''] True = []"
proof (intro conjI)
  show "directory_image_paths ''photos''
      [File ''a.JPG'', File ''b.jpg'', Dir ''sub'' [File ''c.PNG'']] True = [''photos/b.jpg'']"
    by code_simp
  show "directory_image_paths ''photos''
      [File ''a.JPG'', File ''b.jpg'', Dir ''sub'' [File ''c.PNG'']] False
      = [''photos/a.JPG'', ''photos/b.jpg'']"
    by code_simp
  show "predict_directory ext clock self ''photos'' [File ''a.JPG''] True = []"
    by (simp add: predict_directory_def predict_batch_def upper_case_skipped)
qed

section \<open>Properties of the logger\<close>

lemma log_batch_content:
  "log_batch self files ps (current_session_path self) =
     (if ps = [] then files (current_session_path self)
      else Some ((case files (current_session_path self) of None \<Rightarrow> [] | Some old \<Rightarrow> old) @ ps))"
  by (induction ps arbitrary: files) (auto simp: log_prediction_def split: option.splits)

lemma log_batch_other:
  "path \<noteq> current_session_path self \<Longrightarrow> log_batch self files ps path = files path"
  by (induction ps arbitrary: files) (auto simp: log_prediction_def)

lemma scan_log_errors:
  "scan_log counts confs n ps = Inr (counts', confs', n') \<Longrightarrow>
   n' = n + length (filter (\<lambda>p. error p \<noteq> None) ps)"
proof (induction ps arbitrary: counts confs n)
  case Nil
  then show ?case by simp
next
  case (Cons p ps)
  show ?case
  proof (cases "error p = None")
    case True
    with Cons.prems obtain species c where
      "scan_log (count_up counts species) (confs @ [c]) n ps = Inr (counts', confs', n')"
      by (auto split: option.splits)
    from Cons.IH [OF this] show ?thesis using True by simp
  next
    case False
    with Cons.prems have "scan_log counts confs (n + 1) ps = Inr (counts', confs', n')"
      by simp
    from Cons.IH [OF this] show ?thesis using False by simp
  qed
qed

lemma scan_log_ok:
  assumes "\<forall>p\<in>set ps. log_readable p"
  shows "scan_log counts confs n ps =
    Inr (fold (\<lambda>l m. count_up m l)
           (map (\<lambda>p. the (predicted_species p)) (filter (\<lambda>p. error p = None) ps)) counts,
         confs @ map (\<lambda>p. the (confidence p)) (filter (\<lambda>p. error p = None) ps),
         n + length (filter (\<lambda>p. error p \<noteq> None) ps))"
  using assms
  by (induction ps arbitrary: counts confs n) (auto simp: log_readable_def)

lemma np_min_Min:
  assumes "xs \<noteq> []"
  shows "np_min xs = Min (set xs)"
proof (cases xs)
  case Nil
  then show ?thesis using assms by simp
next
  case (Cons a list)
  then show ?thesis
    using Min.set_eq_fold [of a list] by (simp add: np_min_def)
qed


lemma get_session_statistics_readable:
  assumes "files (current_session_path self) = Some records"
    and "\<forall>p\<in>set records. log_readable p"
  defines "valid \<equiv> filter (\<lambda>p. error p = None) records"
  defines "confs \<equiv> map (\<lambda>p. the (confidence p)) valid"
  shows "get_session_statistics self files None =
    Inr (Some
      \<lparr>session_total_predictions = length records,
       session_successful_predictions =
         int (length records) - int (length (filter (\<lambda>p. error p \<noteq> None) records)),
       session_errors = length (filter (\<lambda>p. error p \<noteq> None) records),
       session_average_confidence = (if confs \<noteq> [] then np_mean confs else 0),
       session_min_confidence = (if confs \<noteq> [] then np_min confs else 0),
       session_max_confidence = (if confs \<noteq> [] then np_max confs else 0),
       session_std_confidence = (if confs \<noteq> [] then np_std confs else 0),
       session_species_distribution =
         fold (\<lambda>l m. count_up m l) (map (\<lambda>p. the (predicted_species p)) valid) Map.empty\<rparr>)"
  by (simp add: get_session_statistics_def assms(1) scan_log_ok [OF assms(2)]
      valid_def confs_def)

lemma length_filter_complement':
  "int (length xs) - int (length (filter (\<lambda>x. \<not> P x) xs)) = int (length (filter P xs))"
  using sum_length_filter_compl [of P xs] by simp

text \<open>
  C6 (amended). \<^const>\<open>get_session_statistics\<close> reads the session log from the
  files and nothing else: any logger object bound to the same session file gets
  the same result, and the log holds what \<^const>\<open>log_batch\<close> appended. When the
  log file does not exist (no record was ever logged in the session) the result is
  the empty dictionary, with no field at all; when the file exists and holds no
  record the result is the zeroed statistics; when it holds readable records
  the result gives the number of records, of records without an error and of
  error records, the mean, least and largest confidence and the population standard
  deviation of the confidence over the records without an error (all \<open>0\<close> when
  there is none), and the histogram of their labels. None of these cases fails.
\<close>

theorem session_statistics_spec:
  "(files (current_session_path self) = None \<longrightarrow>
      get_session_statistics self files None = Inr None) \<and>
   (files (current_session_path self) = Some [] \<longrightarrow>
      get_session_statistics self files None = Inr (Some zero_statistics)) \<and>
   (files (current_session_path self) = Some records \<and> (\<forall>p\<in>set records. log_readable p) \<longrightarrow>
      (let valid = filter (\<lambda>p. error p = None) records;
           confs = map (\<lambda>p. the (confidence p)) valid;
           n = length confs
       in \<exists>s. get_session_statistics self files None = Inr (Some s) \<and>
            session_total_predictions s = length records \<and>
            session_successful_predictions s = int (length valid) \<and>
            session_errors s = length (filter (\<lambda>p. error p \<noteq> None) records) \<and>
            session_average_confidence s = (if n = 0 then 0 else sum_list confs / real n) \<and>
            session_min_confidence s = (if n = 0 then 0 else Min (set confs)) \<and>
            session_max_confidence s = (if n = 0 then 0 else Max (set confs)) \<and>
            session_std_confidence s =
              (if n = 0 then 0
               else sqrt ((\<Sum>c\<leftarrow>confs. (c - sum_list confs / real n)\<^sup>2) / real n)) \<and>
            (\<forall>l. session_species_distribution s l =
               (let c = length (filter (\<lambda>p. predicted_species p = Some l) valid)
                in if c = 0 then None else Some c)))) \<and>
   (current_session_path other = current_session_path self \<longrightarrow>
      get_session_statistics other files None = get_session_statistics self files None) \<and>
   log_batch self files records (current_session_path self) =
     (if records = [] then files (current_session_path self)
      else Some ((case files (current_session_path self) of None \<Rightarrow> [] | Some old \<Rightarrow> old)
                 @ records))"
proof (intro conjI impI)
  assume "files (current_session_path self) = None"
  then show "get_session_statistics self files None = Inr None"
    by (simp add: get_session_statistics_def)
next
  assume "files (current_session_path self) = Some []"
  then show "get_session_statistics self files None = Inr (Some zero_statistics)"
    by (simp add: get_session_statistics_def zero_statistics_def)
next
  assume a: "files (current_session_path self) = Some records \<and> (\<forall>p\<in>set records. log_readable p)"
  define valid where "valid = filter (\<lambda>p. error p = None) records"
  define confs where "confs = map (\<lambda>p. the (confidence p)) valid"
  have sp: "\<forall>p\<in>set valid. predicted_species p \<noteq> None"
    using a by (auto simp: valid_def log_readable_def)
  note eq = get_session_statistics_readable [where files = files and self = self
      and records = records, OF conjunct1 [OF a] conjunct2 [OF a],
      folded valid_def, folded confs_def]
  have succ: "int (length records) - int (length (filter (\<lambda>p. error p \<noteq> None) records))
      = int (length valid)"
    unfolding valid_def using length_filter_complement' [of records "\<lambda>p. error p = None"]
    by simp
  have avg: "confs \<noteq> [] \<Longrightarrow> np_mean confs = sum_list confs / real (length confs)"
    by (simp add: np_mean_def)
  have std: "confs \<noteq> [] \<Longrightarrow> np_std confs =
      sqrt ((\<Sum>c\<leftarrow>confs. (c - sum_list confs / real (length confs))\<^sup>2) / real (length confs))"
    by (simp add: np_std_def np_mean_def)
  show "let valid = filter (\<lambda>p. error p = None) records;
           confs = map (\<lambda>p. the (confidence p)) valid;
           n = length confs
       in \<exists>s. get_session_statistics self files None = Inr (Some s) \<and>
            session_total_predictions s = length records \<and>
            session_successful_predictions s = int (length valid) \<and>
            session_errors s = length (filter (\<lambda>p. error p \<noteq> None) records) \<and>
            session_average_confidence s = (if n = 0 then 0 else sum_list confs / real n) \<and>
            session_min_confidence s = (if n = 0 then 0 else Min (set confs)) \<and>
            session_max_confidence s = (if n = 0 then 0 else Max (set confs)) \<and>
            session_std_confidence s =
              (if n = 0 then 0
               else sqrt ((\<Sum>c\<leftarrow>confs. (c - sum_list confs / real n)\<^sup>2) / real n)) \<and>
            (\<forall>l. session_species_distribution s l =
               (let c = length (filter (\<lambda>p. predicted_species p = Some l) valid)
                in if c = 0 then None else Some c))"
    unfolding Let_def valid_def [symmetric] confs_def [symmetric]
    apply (subst eq)
    apply (rule exI, rule conjI, rule refl)
    using succ avg std np_min_Min [of confs] np_max_Max [of confs] histogram [OF sp]
    apply (simp add: Let_def)
    done
next
  assume "current_session_path other = current_session_path self"
  then show "get_session_statistics other files None = get_session_statistics self files None"
    by (simp add: get_session_statistics_def)
next
  show "log_batch self files records (current_session_path self) =
     (if records = [] then files (current_session_path self)
      else Some ((case files (current_session_path self) of None \<Rightarrow> [] | Some old \<Rightarrow> old)
                 @ records))"
    by (rule log_batch_content)
qed

text \<open>
  C6 (as stated, refuted). A session in which nothing was logged has no log file,
  and \<^const>\<open>get_session_statistics\<close> returns the empty dictionary for it, which
  is not the zeroed statistics the claim describes (it has no total, no error
  count and no histogram).
\<close>

theorem empty_session_has_no_statistics:
  "get_session_statistics sample_logger (log_batch sample_logger Map.empty []) None = Inr None \<and>
   get_session_statistics sample_logger (log_batch sample_logger Map.empty []) None
     \<noteq> Inr (Some zero_statistics)"
  by (simp add: get_session_statistics_def)

text \<open>
  C10. For every content of the session log, \<^const>\<open>get_session_statistics\<close> does
  not return the empty dictionary, and the statistics it returns satisfy: the
  total is the number of records, the error count is the number of records with
  an \<open>error\<close> field, and the total is the successful count plus the error count.
  It returns statistics whenever every record without an \<open>error\<close> field has a
  label and a confidence.
\<close>

theorem session_statistics_counts:
  assumes "files (current_session_path self) = Some records"
  shows "get_session_statistics self files None \<noteq> Inr None \<and>
    (\<forall>s. get_session_statistics self files None = Inr (Some s) \<longrightarrow>
       int (session_total_predictions s)
         = session_successful_predictions s + int (session_errors s) \<and>
       session_total_predictions s = length records \<and>
       session_errors s = length (filter (\<lambda>p. error p \<noteq> None) records)) \<and>
    ((\<forall>p\<in>set records. log_readable p) \<longrightarrow>
       (\<exists>s. get_session_statistics self files None = Inr (Some s)))"
proof (intro conjI allI impI)
  show "get_session_statistics self files None \<noteq> Inr None"
    by (simp add: get_session_statistics_def assms split: sum.splits prod.splits)
next
  fix s assume s: "get_session_statistics self files None = Inr (Some s)"
  then obtain counts confs n where scan: "scan_log Map.empty [] 0 records = Inr (counts, confs, n)"
    and total: "session_total_predictions s = length records"
    and succ: "session_successful_predictions s = int (length records) - int n"
    and errs: "session_errors s = n"
    by (auto simp: get_session_statistics_def assms split: sum.splits prod.splits)
  from scan_log_errors [OF scan]
  have n: "n = length (filter (\<lambda>p. error p \<noteq> None) records)" by simp
  show "int (session_total_predictions s)
      = session_successful_predictions s + int (session_errors s)"
    by (simp add: total succ errs)
  show "session_total_predictions s = length records" by (rule total)
  show "session_errors s = length (filter (\<lambda>p. error p \<noteq> None) records)"
    by (simp add: errs n)
next
  assume "\<forall>p\<in>set records. log_readable p"
  from get_session_statistics_readable [where files = files and self = self
      and records = records, OF assms this]
  show "\<exists>s. get_session_statistics self files None = Inr (Some s)"
    by blast
qed


lemma sample_files_content:
  "sample_files (current_session_path sample_logger) = Some sample_results"
  by (simp add: sample_files_def log_batch_content sample_results_def del: log_batch.simps)

lemma sample_results_readable: "\<forall>p\<in>set sample_results. log_readable p"
  by (simp add: sample_results_def sample_prediction_def error_record_def log_readable_def)

lemma sample_results_valid:
  "filter (\<lambda>p. error p = None) sample_results =
     [sample_prediction ''a.jpg'' ''Lion'' 0.9 True, sample_prediction ''c.jpg'' ''Zebra'' 0.3 False]"
  "filter (\<lambda>p. error p \<noteq> None) sample_results =
     [error_record ''b.jpg'' ''cannot identify image file'']"
  by (simp_all add: sample_results_def sample_prediction_def error_record_def)

lemma sqrt_sample: "sqrt (9 / 100) = 3 / 10"
  by (rule real_sqrt_unique) (simp_all add: power2_eq_square)

text \<open>Witness for C6: the log of the sample results, no log file, and an empty
  log file.\<close>

theorem session_statistics_spec_witness:
  "(\<exists>s. get_session_statistics sample_logger sample_files None = Inr (Some s) \<and>
        session_total_predictions s = 3 \<and> session_successful_predictions s = 2 \<and>
        session_errors s = 1 \<and> session_average_confidence s = 0.6 \<and>
        session_min_confidence s = 0.3 \<and> session_max_confidence s = 0.9 \<and>
        session_std_confidence s = 0.3 \<and>
        session_species_distribution s ''Lion'' = Some 1 \<and>
        session_species_distribution s ''Tiger'' = None) \<and>
   get_session_statistics sample_logger Map.empty None = Inr None \<and>
   get_session_statistics sample_logger [current_session_path sample_logger \<mapsto> []] None
     = Inr (Some zero_statistics)"
proof -
  note full = session_statistics_spec [of sample_files sample_logger sample_results sample_logger]
  note none = session_statistics_spec [of Map.empty sample_logger "[]" sample_logger]
  note empty = session_statistics_spec
    [of "[current_session_path sample_logger \<mapsto> []]" sample_logger "[]" sample_logger]
  from full sample_files_content sample_results_readable
  obtain s where s: "get_session_statistics sample_logger sample_files None = Inr (Some s)"
    and total: "session_total_predictions s = length sample_results"
    and succ: "session_successful_predictions s
        = int (length (filter (\<lambda>p. error p = None) sample_results))"
    and errs: "session_errors s = length (filter (\<lambda>p. error p \<noteq> None) sample_results)"
    and rest: "let confs = map (\<lambda>p. the (confidence p))
                   (filter (\<lambda>p. error p = None) sample_results);
          n = length confs
        in session_average_confidence s = (if n = 0 then 0 else sum_list confs / real n) \<and>
           session_min_confidence s = (if n = 0 then 0 else Min (set confs)) \<and>
           session_max_confidence s = (if n = 0 then 0 else Max (set confs)) \<and>
           session_std_confidence s =
             (if n = 0 then 0
              else sqrt ((\<Sum>c\<leftarrow>confs. (c - sum_list confs / real n)\<^sup>2) / real n)) \<and>
           (\<forall>l. session_species_distribution s l =
              (let c = length (filter (\<lambda>p. predicted_species p = Some l)
                   (filter (\<lambda>p. error p = None) sample_results))
               in if c = 0 then None else Some c))"
    unfolding Let_def by blast
  have counts: "session_total_predictions s = 3" "session_successful_predictions s = 2"
    "session_errors s = 1"
    using total succ errs unfolding sample_results_valid by (simp_all add: sample_results_def)
  have aggregates: "session_average_confidence s = 0.6" "session_min_confidence s = 0.3"
    "session_max_confidence s = 0.9"
    "session_species_distribution s ''Lion'' = Some 1"
    "session_species_distribution s ''Tiger'' = None"
    using rest unfolding sample_results_valid Let_def
    by (simp_all add: sample_prediction_def)
  have "session_std_confidence s = sqrt (9 / 100)"
    using rest unfolding sample_results_valid Let_def
    by (simp add: sample_prediction_def power2_eq_square)
  then have std: "session_std_confidence s = 0.3"
    by (simp add: sqrt_sample)
  have first: "\<exists>s. get_session_statistics sample_logger sample_files None = Inr (Some s) \<and>
        session_total_predictions s = 3 \<and> session_successful_predictions s = 2 \<and>
        session_errors s = 1 \<and> session_average_confidence s = 0.6 \<and>
        session_min_confidence s = 0.3 \<and> session_max_confidence s = 0.9 \<and>
        session_std_confidence s = 0.3 \<and>
        session_species_distribution s ''Lion'' = Some 1 \<and>
        session_species_distribution s ''Tiger'' = None"
    by (rule exI [of _ s]) (simp only: s counts aggregates std simp_thms)
  have second: "get_session_statistics sample_logger Map.empty None = Inr None"
    using none by simp
  have third: "get_session_statistics sample_logger
      [current_session_path sample_logger \<mapsto> []] None = Inr (Some zero_statistics)"
    using empty by simp
  show ?thesis
    using first second third by (intro conjI)
qed

text \<open>Witness for C10: the log of the sample results, three records of which one
  is an error record.\<close>

theorem session_statistics_counts_witness:
  "\<exists>s. get_session_statistics sample_logger sample_files None = Inr (Some s) \<and>
       session_total_predictions s = 3 \<and>
       session_successful_predictions s = 2 \<and>
       session_errors s = 1"
proof -
  note counts = session_statistics_counts [where files = sample_files
      and self = sample_logger and records = sample_results, OF sample_files_content]
  from counts sample_results_readable
  obtain s where s: "get_session_statistics sample_logger sample_files None = Inr (Some s)"
    by blast
  with counts have
    sum: "int (session_total_predictions s)
        = session_successful_predictions s + int (session_errors s)"
    and total: "session_total_predictions s = length sample_results"
    and errs: "session_errors s = length (filter (\<lambda>p. error p \<noteq> None) sample_results)"
    by blast+
  have t: "session_total_predictions s = 3"
    using total by (simp add: sample_results_def)
  have e: "session_errors s = 1"
    using errs unfolding sample_results_valid by simp
  have "session_successful_predictions s = 2"
    using sum by (simp add: t e)
  then show ?thesis
    by (intro exI [of _ s]) (simp only: s t e simp_thms)
qed

end
